theory Spec2Isabelle
  imports Main "HOL-Library.Sublist" "HOL-Library.AList"
begin

section \<open>JavaScript values used by the dashboard\<close>

text \<open>
  Strings are character lists, a text in its UTF-8 bytes (on well-formed text, one
  text occurs in another byte by byte exactly when it does character by character).
  A field that may be missing from a JSON object
  (\<^verbatim>\<open>undefined\<close> or \<^verbatim>\<open>null\<close>) is an \<open>option\<close>. The only falsy string is the
  empty one, so \<^verbatim>\<open>s && e\<close> and \<^verbatim>\<open>s || e\<close> on a string field test \<open>truthy\<close>.
\<close>

definition truthy :: "string option \<Rightarrow> bool" where
  "truthy s = (case s of None \<Rightarrow> False | Some v \<Rightarrow> v \<noteq> [])"

text \<open>
  \<^verbatim>\<open>String.prototype.toLowerCase\<close> is the case conversion of Unicode, whose tables are not
  part of the repository: where the code lower-cases free text to search it
  (\<open>searchIssues\<close>), the function is a parameter. \<open>toLowerCaseASCII\<close> changes the letters
  A to Z only. It stands for \<^verbatim>\<open>toLowerCase\<close> where the result is compared with the words
  critical, high, error, medium, warning or searched for the words issue and problem:
  there it gives the same answer, since outside A to Z only U+212A lower-cases to an
  ASCII letter alone (k, which is in none of these words) and U+0130 to i followed by
  U+0307.
\<close>

definition toLowerCaseASCIIChar :: "char \<Rightarrow> char" where
  "toLowerCaseASCIIChar c =
     (let n = (of_char c :: nat) in if 65 \<le> n \<and> n \<le> 90 then char_of (n + 32) else c)"

definition toLowerCaseASCII :: "string \<Rightarrow> string" where
  "toLowerCaseASCII s = map toLowerCaseASCIIChar s"

text \<open>\<^verbatim>\<open>hay.includes(needle)\<close>: the needle starts at some position of the haystack.\<close>

fun includes_str :: "string \<Rightarrow> string \<Rightarrow> bool" where
  "includes_str [] needle = (needle = [])"
| "includes_str (c # cs) needle = (prefix needle (c # cs) \<or> includes_str cs needle)"

text \<open>\<^verbatim>\<open>arr || []\<close> for an array field that may be missing.\<close>

definition or_empty :: "'a list option \<Rightarrow> 'a list" where
  "or_empty xs = (case xs of None \<Rightarrow> [] | Some ys \<Rightarrow> ys)"

section \<open>The scan result\<close>

record issue =
  message :: "string option"
  description :: "string option"
  severity :: "string option"
  issue_file :: "string option"
  line :: "nat option"
  service :: "string option"
  type :: "string option"

record suggestion = issue +
  category :: "string option"
  recommendation :: "string option"

record scan_result =
  syntax_errors :: "issue list option"
  security_issues :: "issue list option"
  logic_conflicts :: "issue list option"
  secrets_detected :: "issue list option"
  best_practices :: "suggestion list option"
  ai_explanation :: "string option"

section \<open>Report: severity filter and text search\<close>

text \<open>
  The component state \<^verbatim>\<open>filter\<close> and \<^verbatim>\<open>searchTerm\<close> is read by the two closures; here
  it is an argument. The search has the platform's \<^verbatim>\<open>toLowerCase\<close> as its first argument.
\<close>

definition filterIssues :: "string \<Rightarrow> issue list \<Rightarrow> issue list" where
  "filterIssues flt issues =
     (if flt = ''all'' then issues
      else filter (\<lambda>issue. severity issue = Some flt) issues)"



definition allIssues :: "scan_result \<Rightarrow> issue list" where
  "allIssues scanData =
     or_empty (syntax_errors scanData) @ or_empty (security_issues scanData) @
     or_empty (logic_conflicts scanData) @ or_empty (secrets_detected scanData)"




definition differ_by_case :: "char \<Rightarrow> char \<Rightarrow> bool" where
  "differ_by_case c d =
     (let m = (of_char c :: nat); n = (of_char d :: nat)
      in (65 \<le> m \<and> m \<le> 90 \<and> n = m + 32) \<or> (65 \<le> n \<and> n \<le> 90 \<and> m = n + 32))"

definition same_letter :: "char \<Rightarrow> char \<Rightarrow> bool" where
  "same_letter c d = (c = d \<or> differ_by_case c d)"

definition severity_among :: "string list \<Rightarrow> issue \<Rightarrow> bool" where
  "severity_among ws i = (\<exists>s w. severity i = Some s \<and> w \<in> set ws \<and> list_all2 same_letter s w)"

section \<open>IssueSummary: the quick stats\<close>

record category_entry =
  cat_key :: string
  cat_label :: string
  cat_color :: string
  cat_issues :: "issue list"

definition categories :: "scan_result \<Rightarrow> category_entry list" where
  "categories issues =
     [\<lparr>cat_key = ''syntax_errors'', cat_label = ''Syntax Errors'', cat_color = ''error'',
       cat_issues = or_empty (syntax_errors issues)\<rparr>,
      \<lparr>cat_key = ''security_issues'', cat_label = ''Security Issues'', cat_color = ''error'',
       cat_issues = or_empty (security_issues issues)\<rparr>,
      \<lparr>cat_key = ''logic_conflicts'', cat_label = ''Logic Conflicts'', cat_color = ''warning'',
       cat_issues = or_empty (logic_conflicts issues)\<rparr>,
      \<lparr>cat_key = ''secrets_detected'', cat_label = ''Secrets Detected'', cat_color = ''error'',
       cat_issues = or_empty (secrets_detected issues)\<rparr>]"

text \<open>
  \<^verbatim>\<open>words.includes(i.severity?.toLowerCase())\<close>: a missing severity is in no list. The
  words are ASCII, for which \<open>toLowerCaseASCII\<close> gives the answer of \<^verbatim>\<open>toLowerCase\<close>.
\<close>

definition severity_in :: "string list \<Rightarrow> issue \<Rightarrow> bool" where
  "severity_in ws i =
     (case severity i of None \<Rightarrow> False | Some s \<Rightarrow> toLowerCaseASCII s \<in> set ws)"

definition criticalHighCount :: "scan_result \<Rightarrow> nat" where
  "criticalHighCount issues =
     foldl (\<lambda>sum cat.
        sum + length (filter (severity_in [''critical'', ''high'', ''error'']) (cat_issues cat)))
       0 (categories issues)"

definition mediumCount :: "scan_result \<Rightarrow> nat" where
  "mediumCount issues =
     foldl (\<lambda>sum cat.
        sum + length (filter (severity_in [''medium'', ''warning'']) (cat_issues cat)))
       0 (categories issues)"

section \<open>BestPractices: grouping by category\<close>

text \<open>
  \<open>groups\<close> is the object built by the \<^verbatim>\<open>reduce\<close>: its own keys, each with the array
  pushed so far (the order of the keys is never read). It starts as \<^verbatim>\<open>{}\<close>, which inherits the
  properties of \<^verbatim>\<open>Object.prototype\<close>: for a category of one of those names
  \<^verbatim>\<open>groups[category]\<close> is truthy before anything was stored, the array is not created,
  and the call of \<^verbatim>\<open>push\<close> on the inherited value throws.
\<close>

datatype js_error = TypeError string | Error string

definition objectPrototypeKeys :: "string list" where
  "objectPrototypeKeys =
     [''constructor'', ''__defineGetter__'', ''__defineSetter__'', ''hasOwnProperty'',
      ''__lookupGetter__'', ''__lookupSetter__'', ''isPrototypeOf'', ''propertyIsEnumerable'',
      ''toString'', ''valueOf'', ''__proto__'', ''toLocaleString'']"

type_synonym grouped = "(string \<times> (suggestion \<times> nat) list) list"

text \<open>\<^verbatim>\<open>suggestion.category || 'general'\<close>\<close>

definition categoryOf :: "suggestion \<Rightarrow> string" where
  "categoryOf suggestion =
     (case category suggestion of None \<Rightarrow> ''general'' | Some c \<Rightarrow> if c = [] then ''general'' else c)"

definition group_step :: "grouped \<Rightarrow> suggestion \<Rightarrow> nat \<Rightarrow> js_error + grouped" where
  "group_step groups suggestion index =
     (let c = categoryOf suggestion in
      if c \<in> set objectPrototypeKeys then Inl (TypeError ''groups[category].push is not a function'')
      else case map_of groups c of
             None \<Rightarrow> Inr (groups @ [(c, [(suggestion, index)])])
           | Some items \<Rightarrow> Inr (AList.update c (items @ [(suggestion, index)]) groups))"

fun reduce_groups :: "grouped \<Rightarrow> nat \<Rightarrow> suggestion list \<Rightarrow> js_error + grouped" where
  "reduce_groups groups index [] = Inr groups"
| "reduce_groups groups index (suggestion # rest) =
     (case group_step groups suggestion index of
        Inl e \<Rightarrow> Inl e
      | Inr groups' \<Rightarrow> reduce_groups groups' (Suc index) rest)"

definition groupedSuggestions :: "suggestion list \<Rightarrow> js_error + grouped" where
  "groupedSuggestions suggestions = reduce_groups [] 0 suggestions"

definition categoryOrder :: "string list" where
  "categoryOrder = [''security'', ''reliability'', ''optimization'', ''monitoring'',
     ''resource_management'', ''configuration'', ''consistency'', ''documentation'',
     ''organization'', ''general'']"

text \<open>\<^verbatim>\<open>categoryOrder.filter(category => groupedSuggestions[category])\<close>, each with its array.\<close>

definition displayedGroups :: "grouped \<Rightarrow> grouped" where
  "displayedGroups groups =
     concat (map (\<lambda>c. case map_of groups c of None \<Rightarrow> [] | Some items \<Rightarrow> [(c, items)])
               categoryOrder)"

text \<open>The number of items in a list of groups, and the array stored under a key.\<close>

definition itemCount :: "grouped \<Rightarrow> nat" where
  "itemCount groups = sum_list (map (\<lambda>g. length (snd g)) groups)"

definition entries :: "grouped \<Rightarrow> string \<Rightarrow> (suggestion \<times> nat) list" where
  "entries groups c = (case map_of groups c of None \<Rightarrow> [] | Some items \<Rightarrow> items)"

text \<open>The suggestions paired with their positions, counted from \<open>k\<close>.\<close>

definition indexed_from :: "nat \<Rightarrow> suggestion list \<Rightarrow> (suggestion \<times> nat) list" where
  "indexed_from k xs = zip xs [k..<k + length xs]"

section \<open>Report: export\<close>

text \<open>
  For the export the held scan result is the JSON document as it was received. A
  number is held as the numeral \<^verbatim>\<open>JSON.stringify\<close> prints for it (so \<^verbatim>\<open>-0\<close> is \<^verbatim>\<open>0\<close>, and
  there is no number that is not finite); a string is its bytes in UTF-8; an object is
  its members in the order in which its keys are enumerated.
\<close>

datatype json =
    JNull
  | JBool bool
  | JNumber string
  | JString string
  | JArray "json list"
  | JObject "(string \<times> json) list"

text \<open>
  \<^verbatim>\<open>JSON.stringify(value, null, 2)\<close>. \<open>quote_char\<close> is the escape of one character in
  QuoteJSONString; \<open>SerializeJSON\<close> has the current indentation as its first argument.
\<close>

definition dquote :: char where "dquote = CHR 0x22"

definition backslash :: char where "backslash = CHR 0x5C"

definition hex_digit :: "nat \<Rightarrow> char" where
  "hex_digit n = (if n < 10 then char_of (48 + n) else char_of (87 + n))"

definition quote_char :: "char \<Rightarrow> string" where
  "quote_char c =
     (if c = CHR 0x08 then [backslash, CHR ''b'']
      else if c = CHR 0x09 then [backslash, CHR ''t'']
      else if c = CHR 0x0A then [backslash, CHR ''n'']
      else if c = CHR 0x0C then [backslash, CHR ''f'']
      else if c = CHR 0x0D then [backslash, CHR ''r'']
      else if c = dquote then [backslash, dquote]
      else if c = backslash then [backslash, backslash]
      else if (of_char c :: nat) < 32 then
        [backslash, CHR ''u'', CHR ''0'', CHR ''0'',
         hex_digit (of_char c div 16), hex_digit (of_char c mod 16)]
      else [c])"

definition QuoteJSONString :: "string \<Rightarrow> string" where
  "QuoteJSONString s = dquote # concat (map quote_char s) @ [dquote]"

definition nl_indent :: "nat \<Rightarrow> string" where
  "nl_indent i = CHR 0x0A # replicate i (CHR '' '')"

fun SerializeJSON :: "nat \<Rightarrow> json \<Rightarrow> string"
  and SerializeElements :: "nat \<Rightarrow> json list \<Rightarrow> string"
  and SerializeMembers :: "nat \<Rightarrow> (string \<times> json) list \<Rightarrow> string" where
  "SerializeJSON i JNull = ''null''"
| "SerializeJSON i (JBool b) = (if b then ''true'' else ''false'')"
| "SerializeJSON i (JNumber t) = t"
| "SerializeJSON i (JString s) = QuoteJSONString s"
| "SerializeJSON i (JArray xs) =
     (if xs = [] then ''[]''
      else ''['' @ nl_indent (i + 2) @ SerializeElements (i + 2) xs @ nl_indent i @ '']'')"
| "SerializeJSON i (JObject ms) =
     (if ms = [] then ''{}''
      else ''{'' @ nl_indent (i + 2) @ SerializeMembers (i + 2) ms @ nl_indent i @ ''}'')"
| "SerializeElements i [] = []"
| "SerializeElements i (x # xs) =
     SerializeJSON i x @ (if xs = [] then [] else '','' @ nl_indent i @ SerializeElements i xs)"
| "SerializeMembers i [] = []"
| "SerializeMembers i (m # ms) =
     QuoteJSONString (fst m) @ '': '' @ SerializeJSON i (snd m) @
     (if ms = [] then [] else '','' @ nl_indent i @ SerializeMembers i ms)"

definition JSON_stringify :: "json \<Rightarrow> string" where
  "JSON_stringify v = SerializeJSON 0 v"

text \<open>
  \<^verbatim>\<open>JSON.parse\<close>, by recursive descent on the text. The first argument of \<open>parse_value\<close>
  bounds the number of nested calls, and \<open>JSON_parse\<close> gives it the length of the text.
  \<open>parse_chars\<close> reads a string from behind its opening quote; an escape
  \<^verbatim>\<open>\uXXXX\<close> is read as one code point. A number is the longest run of number
  characters, which has to be a JSON numeral.
\<close>

definition is_ws :: "char \<Rightarrow> bool" where
  "is_ws c = (c = CHR 0x20 \<or> c = CHR 0x0A \<or> c = CHR 0x0D \<or> c = CHR 0x09)"

definition skip_ws :: "string \<Rightarrow> string" where
  "skip_ws s = dropWhile is_ws s"

definition is_digit :: "char \<Rightarrow> bool" where
  "is_digit c = (48 \<le> (of_char c :: nat) \<and> (of_char c :: nat) \<le> 57)"

definition hex_value :: "char \<Rightarrow> nat option" where
  "hex_value c =
     (let n = (of_char c :: nat) in
      if 48 \<le> n \<and> n \<le> 57 then Some (n - 48)
      else if 97 \<le> n \<and> n \<le> 102 then Some (n - 87)
      else if 65 \<le> n \<and> n \<le> 70 then Some (n - 55)
      else None)"

definition hex4 :: "char \<Rightarrow> char \<Rightarrow> char \<Rightarrow> char \<Rightarrow> nat option" where
  "hex4 a b c d =
     (case (hex_value a, hex_value b, hex_value c, hex_value d) of
        (Some w, Some x, Some y, Some z) \<Rightarrow> Some (((w * 16 + x) * 16 + y) * 16 + z)
      | _ \<Rightarrow> None)"

definition utf8_encode :: "nat \<Rightarrow> string" where
  "utf8_encode cp =
     (if cp < 0x80 then [char_of cp]
      else if cp < 0x800 then [char_of (0xC0 + cp div 64), char_of (0x80 + cp mod 64)]
      else [char_of (0xE0 + cp div 4096), char_of (0x80 + cp div 64 mod 64),
            char_of (0x80 + cp mod 64)])"

definition unescape :: "char \<Rightarrow> char option" where
  "unescape e =
     (if e = dquote then Some dquote
      else if e = backslash then Some backslash
      else if e = CHR ''/'' then Some (CHR ''/'')
      else if e = CHR ''b'' then Some (CHR 0x08)
      else if e = CHR ''f'' then Some (CHR 0x0C)
      else if e = CHR ''n'' then Some (CHR 0x0A)
      else if e = CHR ''r'' then Some (CHR 0x0D)
      else if e = CHR ''t'' then Some (CHR 0x09)
      else None)"

definition prepend :: "string \<Rightarrow> (string \<times> string) option \<Rightarrow> (string \<times> string) option" where
  "prepend p r = (case r of None \<Rightarrow> None | Some (s, rest) \<Rightarrow> Some (p @ s, rest))"

fun parse_chars :: "string \<Rightarrow> (string \<times> string) option" where
  "parse_chars [] = None"
| "parse_chars (c # cs) =
     (if c = dquote then Some ([], cs)
      else if c = backslash then
        (case cs of
           [] \<Rightarrow> None
         | e # r \<Rightarrow>
             if e = CHR ''u'' then
               (case r of
                  h1 # h2 # h3 # h4 # r' \<Rightarrow>
                    (case hex4 h1 h2 h3 h4 of
                       None \<Rightarrow> None
                     | Some cp \<Rightarrow> prepend (utf8_encode cp) (parse_chars r'))
                | _ \<Rightarrow> None)
             else (case unescape e of
                     None \<Rightarrow> None
                   | Some ch \<Rightarrow> prepend [ch] (parse_chars r)))
      else if (of_char c :: nat) < 32 then None
      else prepend [c] (parse_chars cs))"

definition number_char :: "char \<Rightarrow> bool" where
  "number_char c =
     (is_digit c \<or> c = CHR ''-'' \<or> c = CHR ''+'' \<or> c = CHR ''.'' \<or> c = CHR ''e'' \<or> c = CHR ''E'')"

definition exponent_ok :: "string \<Rightarrow> bool" where
  "exponent_ok r =
     (case r of
        [] \<Rightarrow> True
      | c # r1 \<Rightarrow>
          (c = CHR ''e'' \<or> c = CHR ''E'') \<and>
          (let ds = (case r1 of [] \<Rightarrow> [] | s # r2 \<Rightarrow> if s = CHR ''+'' \<or> s = CHR ''-'' then r2 else r1)
           in ds \<noteq> [] \<and> list_all is_digit ds))"

definition fraction_ok :: "string \<Rightarrow> bool" where
  "fraction_ok r =
     (case r of
        [] \<Rightarrow> True
      | c # r1 \<Rightarrow>
          if c = CHR ''.'' then takeWhile is_digit r1 \<noteq> [] \<and> exponent_ok (dropWhile is_digit r1)
          else exponent_ok r)"

definition json_numeral :: "string \<Rightarrow> bool" where
  "json_numeral t =
     (let u = (case t of [] \<Rightarrow> [] | c # r \<Rightarrow> if c = CHR ''-'' then r else t);
          ip = takeWhile is_digit u
      in list_all number_char t \<and> ip \<noteq> [] \<and> (hd ip \<noteq> CHR ''0'' \<or> length ip = 1) \<and>
         fraction_ok (dropWhile is_digit u))"

definition parse_number :: "string \<Rightarrow> (json \<times> string) option" where
  "parse_number s =
     (let t = takeWhile number_char s in
      if json_numeral t then Some (JNumber t, dropWhile number_char s) else None)"

definition parse_literal :: "string \<Rightarrow> json \<Rightarrow> string \<Rightarrow> (json \<times> string) option" where
  "parse_literal word v s =
     (if take (length word) s = word then Some (v, drop (length word) s) else None)"

text \<open>
  CreateDataProperty for each member in turn: a repeated key keeps its place and takes
  the later value.
\<close>

definition object_of :: "(string \<times> json) list \<Rightarrow> (string \<times> json) list" where
  "object_of ms = foldl (\<lambda>acc m. AList.update (fst m) (snd m) acc) [] ms"

fun parse_value :: "nat \<Rightarrow> string \<Rightarrow> (json \<times> string) option"
  and parse_elements :: "nat \<Rightarrow> string \<Rightarrow> (json list \<times> string) option"
  and parse_members :: "nat \<Rightarrow> string \<Rightarrow> ((string \<times> json) list \<times> string) option" where
  "parse_value 0 s = None"
| "parse_value (Suc n) s =
     (case s of
        [] \<Rightarrow> None
      | c # cs \<Rightarrow>
          if c = CHR ''n'' then parse_literal ''null'' JNull s
          else if c = CHR ''t'' then parse_literal ''true'' (JBool True) s
          else if c = CHR ''f'' then parse_literal ''false'' (JBool False) s
          else if c = dquote then
            (case parse_chars cs of None \<Rightarrow> None | Some (str, r) \<Rightarrow> Some (JString str, r))
          else if c = CHR ''['' then
            (case skip_ws cs of
               [] \<Rightarrow> None
             | d # r \<Rightarrow>
                 if d = CHR '']'' then Some (JArray [], r)
                 else (case parse_elements n (d # r) of
                         None \<Rightarrow> None
                       | Some (xs, r') \<Rightarrow> Some (JArray xs, r')))
          else if c = CHR ''{'' then
            (case skip_ws cs of
               [] \<Rightarrow> None
             | d # r \<Rightarrow>
                 if d = CHR ''}'' then Some (JObject [], r)
                 else (case parse_members n (d # r) of
                         None \<Rightarrow> None
                       | Some (ms, r') \<Rightarrow> Some (JObject (object_of ms), r')))
          else parse_number s)"
| "parse_elements 0 s = None"
| "parse_elements (Suc n) s =
     (case parse_value n s of
        None \<Rightarrow> None
      | Some (v, r) \<Rightarrow>
          (case skip_ws r of
             [] \<Rightarrow> None
           | d # r1 \<Rightarrow>
               if d = CHR '','' then
                 (case parse_elements n (skip_ws r1) of
                    None \<Rightarrow> None
                  | Some (vs, r2) \<Rightarrow> Some (v # vs, r2))
               else if d = CHR '']'' then Some ([v], r1)
               else None))"
| "parse_members 0 s = None"
| "parse_members (Suc n) s =
     (case s of
        [] \<Rightarrow> None
      | q # cs \<Rightarrow>
          if q \<noteq> dquote then None
          else (case parse_chars cs of
                  None \<Rightarrow> None
                | Some (k, r) \<Rightarrow>
                    (case skip_ws r of
                       [] \<Rightarrow> None
                     | c # r1 \<Rightarrow>
                         if c \<noteq> CHR '':'' then None
                         else (case parse_value n (skip_ws r1) of
                                 None \<Rightarrow> None
                               | Some (v, r2) \<Rightarrow>
                                   (case skip_ws r2 of
                                      [] \<Rightarrow> None
                                    | d # r3 \<Rightarrow>
                                        if d = CHR '','' then
                                          (case parse_members n (skip_ws r3) of
                                             None \<Rightarrow> None
                                           | Some (ms, r4) \<Rightarrow> Some ((k, v) # ms, r4))
                                        else if d = CHR ''}'' then Some ([(k, v)], r3)
                                        else None)))))"

definition JSON_parse :: "string \<Rightarrow> json option" where
  "JSON_parse s =
     (case parse_value (length s) (skip_ws s) of
        None \<Rightarrow> None
      | Some (v, r) \<Rightarrow> if skip_ws r = [] then Some v else None)"

text \<open>
  The documents \<^verbatim>\<open>JSON.parse\<close> can have produced: every number is a JSON numeral, and
  no object has a key twice. \<open>cost\<close> counts the calls the parser needs for a value, and
  \<open>safe_rest\<close> says that what follows a value does not continue a number.
\<close>

fun wf_json :: "json \<Rightarrow> bool"
  and wf_elems :: "json list \<Rightarrow> bool"
  and wf_members :: "(string \<times> json) list \<Rightarrow> bool" where
  "wf_json JNull = True"
| "wf_json (JBool b) = True"
| "wf_json (JNumber t) = json_numeral t"
| "wf_json (JString s) = True"
| "wf_json (JArray xs) = wf_elems xs"
| "wf_json (JObject ms) = (distinct (map fst ms) \<and> wf_members ms)"
| "wf_elems [] = True"
| "wf_elems (x # xs) = (wf_json x \<and> wf_elems xs)"
| "wf_members [] = True"
| "wf_members (m # ms) = (wf_json (snd m) \<and> wf_members ms)"

fun cost :: "json \<Rightarrow> nat"
  and cost_elems :: "json list \<Rightarrow> nat"
  and cost_members :: "(string \<times> json) list \<Rightarrow> nat" where
  "cost JNull = 1"
| "cost (JBool b) = 1"
| "cost (JNumber t) = 1"
| "cost (JString s) = 1"
| "cost (JArray xs) = Suc (cost_elems xs)"
| "cost (JObject ms) = Suc (cost_members ms)"
| "cost_elems [] = 0"
| "cost_elems (x # xs) = Suc (cost x + cost_elems xs)"
| "cost_members [] = 0"
| "cost_members (m # ms) = Suc (cost (snd m) + cost_members ms)"

definition safe_rest :: "string \<Rightarrow> bool" where
  "safe_rest r = (case r of [] \<Rightarrow> True | c # _ \<Rightarrow> \<not> number_char c)"

text \<open>
  \<^verbatim>\<open>new Date()\<close> reads the clock: the reading is an input, given by its UTC fields, which
  a \<^verbatim>\<open>Date\<close> keeps within \<open>valid_utc\<close>. \<open>toISOString\<close> prints four digits for a year from
  0 to 9999 and a sign with six digits for any other; \<open>pad w n\<close> is the last \<open>w\<close> decimal
  digits of \<open>n\<close>.
\<close>

record utc_time =
  utc_year :: int
  utc_month :: nat
  utc_date :: nat
  utc_hours :: nat
  utc_minutes :: nat
  utc_seconds :: nat
  utc_milliseconds :: nat

definition valid_utc :: "utc_time \<Rightarrow> bool" where
  "valid_utc t =
     (- 271821 \<le> utc_year t \<and> utc_year t \<le> 275760 \<and>
      1 \<le> utc_month t \<and> utc_month t \<le> 12 \<and> 1 \<le> utc_date t \<and> utc_date t \<le> 31 \<and>
      utc_hours t < 24 \<and> utc_minutes t < 60 \<and> utc_seconds t < 60 \<and> utc_milliseconds t < 1000)"

definition four_digit_year :: "utc_time \<Rightarrow> bool" where
  "four_digit_year t = (0 \<le> utc_year t \<and> utc_year t \<le> 9999)"

definition digit_char :: "nat \<Rightarrow> char" where
  "digit_char n = char_of (48 + n mod 10)"

fun pad :: "nat \<Rightarrow> nat \<Rightarrow> string" where
  "pad 0 n = []"
| "pad (Suc w) n = pad w (n div 10) @ [digit_char n]"

definition toISOString :: "utc_time \<Rightarrow> string" where
  "toISOString t =
     (if 0 \<le> utc_year t \<and> utc_year t \<le> 9999 then pad 4 (nat (utc_year t))
      else (if utc_year t < 0 then ''-'' else ''+'') @ pad 6 (nat \<bar>utc_year t\<bar>)) @
     ''-'' @ pad 2 (utc_month t) @ ''-'' @ pad 2 (utc_date t) @
     ''T'' @ pad 2 (utc_hours t) @ '':'' @ pad 2 (utc_minutes t) @ '':'' @
     pad 2 (utc_seconds t) @ ''.'' @ pad 3 (utc_milliseconds t) @ ''Z''"

text \<open>\<^verbatim>\<open>s.split(sep)[0]\<close>: the text before the first separator.\<close>

definition split_first :: "char \<Rightarrow> string \<Rightarrow> string" where
  "split_first sep s = takeWhile (\<lambda>c. c \<noteq> sep) s"

text \<open>
  \<open>exportReport\<close>, given the two clock readings it takes: the parts and the type of
  the \<^verbatim>\<open>Blob\<close>, and the \<^verbatim>\<open>download\<close> attribute of the link it clicks.
\<close>

record download =
  blob_parts :: "string list"
  blob_type :: string
  download_name :: string

definition exportReport :: "utc_time \<Rightarrow> utc_time \<Rightarrow> json \<Rightarrow> download" where
  "exportReport now1 now2 scanData =
     (let reportData = JObject [(''timestamp'', JString (toISOString now1)),
                                (''scan_data'', scanData)]
      in \<lparr>blob_parts = [JSON_stringify reportData],
          blob_type = ''application/json'',
          download_name =
            ''zeroguard-report-'' @ split_first (CHR ''T'') (toISOString now2) @ ''.json''\<rparr>)"

text \<open>A template matches a text of its length with a digit wherever it has \<^verbatim>\<open>#\<close>.\<close>

definition matches_template :: "string \<Rightarrow> string \<Rightarrow> bool" where
  "matches_template tpl s = list_all2 (\<lambda>p c. if p = CHR ''#'' then is_digit c else c = p) tpl s"

section \<open>API client\<close>

text \<open>
  The network is an input: a call is given the outcome of its request, either the
  error axios rejects with or the body of a 2xx response. \<open>response\<close> is missing when
  no response arrived; the body of an error response may be missing, text that is not
  JSON, or any JSON value.
\<close>

datatype response_data = NoData | TextData string | JsonData json

record http_response =
  status :: nat
  data :: response_data

record axios_error =
  response :: "http_response option"
  error_text :: string

fun error_message :: "js_error \<Rightarrow> string" where
  "error_message (TypeError m) = m"
| "error_message (Error m) = m"

text \<open>
  \<^verbatim>\<open>error.response?.data?.detail\<close>: the member \<open>detail\<close> of a body that is an object, of
  whatever type the server gave it; nothing for any other body.
\<close>

definition response_detail :: "axios_error \<Rightarrow> json option" where
  "response_detail error =
     (case response error of
        None \<Rightarrow> None
      | Some r \<Rightarrow> (case data r of JsonData (JObject ms) \<Rightarrow> map_of ms ''detail'' | _ \<Rightarrow> None))"

text \<open>
  Truthiness of a value: \<^verbatim>\<open>null\<close>, \<^verbatim>\<open>false\<close>, zero and the empty string are falsy, every
  array and object is truthy.
\<close>

definition zero_numeral :: "string \<Rightarrow> bool" where
  "zero_numeral t =
     list_all (\<lambda>c. c = CHR ''0'' \<or> c = CHR ''-'' \<or> c = CHR ''.'')
       (takeWhile (\<lambda>c. c \<noteq> CHR ''e'' \<and> c \<noteq> CHR ''E'') t)"

fun js_truthy :: "json \<Rightarrow> bool" where
  "js_truthy JNull = False"
| "js_truthy (JBool b) = b"
| "js_truthy (JNumber t) = (\<not> zero_numeral t)"
| "js_truthy (JString s) = (s \<noteq> [])"
| "js_truthy (JArray xs) = True"
| "js_truthy (JObject ms) = True"

text \<open>
  The string \<^verbatim>\<open>new Error(value)\<close> takes as its message: a string is itself, an array is
  its elements joined by commas with \<^verbatim>\<open>null\<close> as nothing, an object is
  \<^verbatim>\<open>[object Object]\<close>.
\<close>

fun ToString :: "json \<Rightarrow> string"
  and join_elements :: "json list \<Rightarrow> string" where
  "ToString JNull = ''null''"
| "ToString (JBool b) = (if b then ''true'' else ''false'')"
| "ToString (JNumber t) = t"
| "ToString (JString s) = s"
| "ToString (JArray xs) = join_elements xs"
| "ToString (JObject ms) = ''[object Object]''"
| "join_elements [] = []"
| "join_elements (x # xs) =
     (if x = JNull then [] else ToString x) @
     (if xs = [] then [] else '','' @ join_elements xs)"

text \<open>\<^verbatim>\<open>a || b\<close>, on a value that may be missing, and on string fields that may be missing.\<close>

definition or_value :: "json option \<Rightarrow> json \<Rightarrow> json" where
  "or_value a b = (case a of None \<Rightarrow> b | Some v \<Rightarrow> if js_truthy v then v else b)"

definition js_or :: "string option \<Rightarrow> string option \<Rightarrow> string option" where
  "js_or a b = (if truthy a then a else b)"

text \<open>\<^verbatim>\<open>error.response?.data?.detail || error.message || 'Request failed'\<close>, as the message
  of the error made of it.\<close>

definition errorMessage :: "axios_error \<Rightarrow> string" where
  "errorMessage error =
     ToString (or_value (Some (or_value (response_detail error) (JString (error_text error))))
                 (JString ''Request failed''))"

text \<open>
  A request through the response interceptors: a response gives its body, an error is
  rejected as \<^verbatim>\<open>new Error(errorMessage)\<close>.
\<close>

definition api_post :: "axios_error + 'a \<Rightarrow> js_error + 'a" where
  "api_post outcome =
     (case outcome of
        Inr response_data \<Rightarrow> Inr response_data
      | Inl error \<Rightarrow> Inl (Error (errorMessage error)))"

text \<open>A \<^verbatim>\<open>FormData\<close>: the appended fields in order, a file by its handle.\<close>

datatype form_value = FilePart string | TextPart string

type_synonym form_data = "(string \<times> form_value) list"

definition scanConfiguration :: "form_data \<Rightarrow> axios_error + scan_result \<Rightarrow> js_error + scan_result" where
  "scanConfiguration formData outcome = api_post outcome"

record explain_context =
  ctx_file :: "string option"
  ctx_line :: "nat option"
  ctx_service :: "string option"
  ctx_type :: "string option"

record explain_request =
  issue_description :: "string option"
  configuration_context :: explain_context
  mode :: string

text \<open>
  \<open>explainIssue\<close> gives the body it posts to \<^verbatim>\<open>/explain\<close> and what the caller gets
  back. Its third parameter has the default \<^verbatim>\<open>'devops'\<close>: \<open>None\<close> is a call without it.
\<close>

record explain_response =
  explanation :: "string option"

definition explainIssue ::
  "string option \<Rightarrow> explain_context \<Rightarrow> string option \<Rightarrow> axios_error + explain_response \<Rightarrow>
   explain_request \<times> (js_error + explain_response)" where
  "explainIssue issueDescription configurationContext mode_arg outcome =
     (\<lparr>issue_description = issueDescription,
       configuration_context = configurationContext,
       mode = (case mode_arg of None \<Rightarrow> ''devops'' | Some m \<Rightarrow> m)\<rparr>,
      api_post outcome)"

definition issue_context :: "issue \<Rightarrow> explain_context" where
  "issue_context i =
     \<lparr>ctx_file = issue_file i, ctx_line = line i, ctx_service = service i, ctx_type = type i\<rparr>"

text \<open>AIExplanation: the button's handler, with the request it sends, if any.\<close>

record explanation_view =
  isExplaining :: bool
  detailedExplanation :: "string option"
  isExpanded :: bool

definition handleExplainIssue ::
  "issue option \<Rightarrow> axios_error + explain_response \<Rightarrow> explanation_view \<Rightarrow>
   explanation_view \<times> explain_request option" where
  "handleExplainIssue selectedIssue outcome v =
     (case selectedIssue of
        None \<Rightarrow> (v, None)
      | Some i \<Rightarrow>
          (case explainIssue (js_or (message i) (description i)) (issue_context i) None outcome of
             (request, Inr result) \<Rightarrow>
               (v\<lparr>detailedExplanation := explanation result, isExpanded := True,
                  isExplaining := False\<rparr>, Some request)
           | (request, Inl err) \<Rightarrow>
               (v\<lparr>detailedExplanation := Some (''Failed to get explanation: '' @ error_message err),
                  isExpanded := True, isExplaining := False\<rparr>, Some request)))"

text \<open>
  AIAssistant: the \<^verbatim>\<open>/explain\<close> request \<open>handleSendMessage\<close> sends, if any; the chat
  messages it appends are not modelled. \<open>trim\<close> removes the ASCII white space.
\<close>

definition is_whitespace :: "char \<Rightarrow> bool" where
  "is_whitespace c = ((of_char c :: nat) \<in> {9, 10, 11, 12, 13, 32})"

definition trim :: "string \<Rightarrow> string" where
  "trim s = rev (dropWhile is_whitespace (rev (dropWhile is_whitespace s)))"

definition handleSendMessage ::
  "string \<Rightarrow> bool \<Rightarrow> scan_result option \<Rightarrow> axios_error + explain_response \<Rightarrow>
   explain_request option" where
  "handleSendMessage input isLoading scanData outcome =
     (if trim input = [] \<or> isLoading then None
      else case scanData of
        None \<Rightarrow> None
      | Some d \<Rightarrow>
          if includes_str (toLowerCaseASCII input) ''issue'' \<or> includes_str (toLowerCaseASCII input) ''problem''
          then (if length (allIssues d) > 0
                then (case take 3 (filter (\<lambda>issue. severity issue \<in> {Some ''critical'', Some ''high''})
                                     (allIssues d)) of
                        [] \<Rightarrow> None
                      | issue # _ \<Rightarrow>
                          Some (fst (explainIssue (js_or (message issue) (description issue))
                                       (issue_context issue) None outcome)))
                else None)
          else None)"

section \<open>Upload and the application state\<close>

text \<open>
  \<open>ui_state\<close> holds the state of \<^verbatim>\<open>App\<close> (\<open>activeTab\<close>, \<open>scanData\<close>, \<open>isScanning\<close>) and
  of the mounted \<^verbatim>\<open>Upload\<close> view (\<open>files\<close>, \<open>error\<close>, and \<open>selected_mode\<close> for its
  \<^verbatim>\<open>mode\<close>). \<open>files\<close> maps a slot to what was read for it.
\<close>

datatype file_key = dockerfile | docker_compose | env_file

record uploaded_file =
  file_obj :: string
  content :: string
  name :: string

record ui_state =
  activeTab :: string
  scanData :: "scan_result option"
  isScanning :: bool
  files :: "file_key \<Rightarrow> uploaded_file option"
  error :: string
  selected_mode :: string

record world = ui_state +
  in_flight :: "form_data list"

text \<open>\<^verbatim>\<open>Object.keys(files)\<close>, up to order.\<close>

definition held_keys :: "(file_key \<Rightarrow> uploaded_file option) \<Rightarrow> file_key list" where
  "held_keys fs = filter (\<lambda>k. fs k \<noteq> None) [dockerfile, docker_compose, env_file]"

definition file_part :: "string \<Rightarrow> uploaded_file option \<Rightarrow> form_data" where
  "file_part field f = (case f of None \<Rightarrow> [] | Some u \<Rightarrow> [(field, FilePart (file_obj u))])"

definition build_form_data :: "(file_key \<Rightarrow> uploaded_file option) \<Rightarrow> string \<Rightarrow> form_data" where
  "build_form_data fs m =
     file_part ''dockerfile'' (fs dockerfile) @
     file_part ''docker_compose'' (fs docker_compose) @
     file_part ''env_file'' (fs env_file) @
     [(''mode'', TextPart m)]"

text \<open>
  \<open>handleScan\<close> is asynchronous. \<open>handleScan_begin\<close> is its run up to the \<^verbatim>\<open>await\<close>: the
  state it leaves and the form it hands to \<open>scanConfiguration\<close>, if it gets there.
  \<open>handleScan_settle\<close> is its run from the \<^verbatim>\<open>await\<close> on, given what the call returned or
  threw. \<open>handleScan\<close> is one call with nothing in between, given the outcome of its
  request, together with the requests it sent.
\<close>

definition handleScan_begin :: "'a ui_state_scheme \<Rightarrow> 'a ui_state_scheme \<times> form_data option" where
  "handleScan_begin st =
     (if length (held_keys (files st)) = 0
      then (st\<lparr>error := ''Please upload at least one configuration file''\<rparr>, None)
      else (st\<lparr>isScanning := True, error := []\<rparr>,
            Some (build_form_data (files st) (selected_mode st))))"

definition handleScan_settle :: "js_error + scan_result \<Rightarrow> 'a ui_state_scheme \<Rightarrow> 'a ui_state_scheme" where
  "handleScan_settle outcome st =
     (case outcome of
        Inr result \<Rightarrow> st\<lparr>scanData := Some result, activeTab := ''dashboard'', isScanning := False\<rparr>
      | Inl err \<Rightarrow>
          st\<lparr>error := (if error_message err \<noteq> [] then error_message err
                        else ''Scan failed. Please try again.''),
             isScanning := False\<rparr>)"

definition handleScan ::
  "axios_error + scan_result \<Rightarrow> 'a ui_state_scheme \<Rightarrow> 'a ui_state_scheme \<times> form_data list" where
  "handleScan outcome st =
     (case handleScan_begin st of
        (st1, None) \<Rightarrow> (st1, [])
      | (st1, Some formData) \<Rightarrow>
          (handleScan_settle (scanConfiguration formData outcome) st1, [formData]))"

text \<open>
  The Upload view over time, for one mount of the view. An event is a user action or
  a callback; \<open>in_flight\<close> lists the \<^verbatim>\<open>/scan\<close> requests sent and not yet settled.
  The "Start Analysis" button is there while the view is shown and is disabled by
  \<^verbatim>\<open>Object.keys(files).length === 0\<close> only. A request may settle after the view is gone:
  then \<^verbatim>\<open>setError\<close> has no effect, the setters of \<^verbatim>\<open>App\<close> still have theirs.
\<close>

datatype event =
    FileRead file_key uploaded_file
  | RemoveFile file_key
  | SetMode string
  | ClickStartAnalysis
  | FileReadFails
  | DropRejected
  | ScanSettles nat "axios_error + scan_result"

definition button_disabled :: "'a ui_state_scheme \<Rightarrow> bool" where
  "button_disabled st = (length (held_keys (files st)) = 0)"

fun step :: "event \<Rightarrow> world \<Rightarrow> world" where
  "step (FileRead k f) w =
     (if activeTab w = ''upload'' then w\<lparr>files := (files w)(k \<mapsto> f), error := []\<rparr> else w)"
| "step (RemoveFile k) w =
     (if activeTab w = ''upload'' then w\<lparr>files := (files w)(k := None)\<rparr> else w)"
| "step (SetMode m) w =
     (if activeTab w = ''upload'' then w\<lparr>selected_mode := m\<rparr> else w)"
| "step FileReadFails w =
     (if activeTab w = ''upload'' then w\<lparr>error := ''Failed to read file''\<rparr> else w)"
| "step DropRejected w =
     (if activeTab w = ''upload'' then w\<lparr>error := ''No valid files selected''\<rparr> else w)"
| "step ClickStartAnalysis w =
     (if activeTab w \<noteq> ''upload'' \<or> button_disabled w then w
      else case handleScan_begin w of
             (w1, None) \<Rightarrow> w1
           | (w1, Some formData) \<Rightarrow> w1\<lparr>in_flight := in_flight w1 @ [formData]\<rparr>)"
| "step (ScanSettles n outcome) w =
     (if n < length (in_flight w)
      then (let w1 = handleScan_settle (scanConfiguration (in_flight w ! n) outcome)
                       (w\<lparr>in_flight := take n (in_flight w) @ drop (Suc n) (in_flight w)\<rparr>)
            in if activeTab w = ''upload'' then w1 else w1\<lparr>error := error w\<rparr>)
      else w)"

definition run :: "event list \<Rightarrow> world \<Rightarrow> world" where
  "run events w = fold step events w"

section \<open>Fixtures\<close>

text \<open>An issue with the four fields the examples vary; the other fields are missing.\<close>

definition mk_issue ::
  "string option \<Rightarrow> string option \<Rightarrow> string option \<Rightarrow> string option \<Rightarrow> issue" where
  "mk_issue m d s f =
     \<lparr>message = m, description = d, severity = s, issue_file = f,
      line = None, service = None, type = None\<rparr>"



definition mixed_scan :: scan_result where
  "mixed_scan =
     \<lparr>syntax_errors = Some [mk_issue (Some ''Unknown instruction'') None (Some ''HIGH'') None,
                            mk_issue (Some ''Trailing space'') None (Some ''low'') None],
      security_issues = None,
      logic_conflicts = Some [mk_issue None (Some ''Port 80 is published twice'') (Some ''Warning'') None,
                              mk_issue None (Some ''Orphan volume'') None None],
      secrets_detected = Some [mk_issue (Some ''API key in .env'') None (Some ''error'') (Some ''.env'')],
      best_practices = None, ai_explanation = None\<rparr>"

definition mk_suggestion :: "string \<Rightarrow> string option \<Rightarrow> suggestion" where
  "mk_suggestion m c = \<lparr>message = Some m, description = None, severity = Some ''low'',
     issue_file = None, line = None, service = None, type = None, category = c,
     recommendation = None\<rparr>"

definition listed_suggestions :: "suggestion list" where
  "listed_suggestions =
     [mk_suggestion ''Run as a non-root user'' (Some ''security''),
      mk_suggestion ''Add a health check'' None,
      mk_suggestion ''Pin the base image'' (Some ''reliability'')]"

definition high_scan :: scan_result where
  "high_scan =
     \<lparr>syntax_errors = Some [mk_issue (Some ''Trailing space'') None (Some ''low'') None],
      security_issues =
        Some [mk_issue None (Some ''Container runs as root'') (Some ''high'') (Some ''Dockerfile'')],
      logic_conflicts = None, secrets_detected = None,
      best_practices = None, ai_explanation = None\<rparr>"

definition empty_detail_error :: axios_error where
  "empty_detail_error =
     \<lparr>response = Some \<lparr>status = 400, data = JsonData (JObject [(''detail'', JString [])])\<rparr>,
      error_text = ''Request failed with status code 400''\<rparr>"

definition detail_error :: axios_error where
  "detail_error =
     \<lparr>response =
        Some \<lparr>status = 415, data = JsonData (JObject [(''detail'', JString ''Unsupported file type'')])\<rparr>,
      error_text = ''Request failed with status code 415''\<rparr>"

text \<open>A request that got no response and has no text.\<close>

definition no_response_error :: axios_error where
  "no_response_error = \<lparr>response = None, error_text = []\<rparr>"

text \<open>An error response whose \<open>detail\<close> is a list of objects, as a validation error has it.\<close>

definition list_detail_error :: axios_error where
  "list_detail_error =
     \<lparr>response =
        Some \<lparr>status = 422,
              data = JsonData (JObject [(''detail'',
                       JArray [JObject [(''loc'', JArray [JString ''body'', JString ''mode'']),
                                        (''msg'', JString ''field required'')]])])\<rparr>,
      error_text = ''Request failed with status code 422''\<rparr>"

definition a_dockerfile :: uploaded_file where
  "a_dockerfile = \<lparr>file_obj = ''File#1'', content = ''FROM alpine'', name = ''Dockerfile''\<rparr>"

text \<open>The Upload view just opened, and the view with a Dockerfile read and an earlier result.\<close>

definition upload_opened :: world where
  "upload_opened =
     \<lparr>activeTab = ''upload'', scanData = None, isScanning = False,
      files = (\<lambda>k. None), error = [], selected_mode = ''devops'', in_flight = []\<rparr>"


definition upload_empty :: ui_state where
  "upload_empty =
     \<lparr>activeTab = ''upload'', scanData = Some mixed_scan, isScanning = False,
      files = (\<lambda>k. None), error = [], selected_mode = ''devops''\<rparr>"

definition report_time :: utc_time where
  "report_time = \<lparr>utc_year = 2026, utc_month = 11, utc_date = 3, utc_hours = 6,
     utc_minutes = 41, utc_seconds = 7, utc_milliseconds = 123\<rparr>"

definition held_document :: json where
  "held_document =
     JObject [(''syntax_errors'', JArray []),
              (''security_issues'',
                 JArray [JObject [(''message'', JString ''Container runs as root''),
                                  (''severity'', JString ''high''),
                                  (''line'', JNumber ''12''),
                                  (''confidence'', JNumber ''87.5'')]]),
              (''ai_explanation'', JString [CHR ''a'', CHR 0x0A, CHR 0x22, CHR ''b'', CHR 0x22]),
              (''risk_score'', JObject [(''overall'', JNumber ''42''), (''ok'', JBool False),
                                        (''note'', JNull)])]"

section \<open>Theorems\<close>

subsection \<open>Lower-casing and substrings\<close>

lemma of_char_toLowerCaseASCIIChar:
  "(of_char (toLowerCaseASCIIChar c) :: nat) =
     (if 65 \<le> (of_char c :: nat) \<and> (of_char c :: nat) \<le> 90 then of_char c + 32 else of_char c)"
  by (simp add: toLowerCaseASCIIChar_def Let_def)

lemma toLowerCaseASCIIChar_eq_iff: "toLowerCaseASCIIChar c = toLowerCaseASCIIChar d \<longleftrightarrow> same_letter c d"
proof -
  have "toLowerCaseASCIIChar c = toLowerCaseASCIIChar d \<longleftrightarrow>
        (of_char (toLowerCaseASCIIChar c) :: nat) = of_char (toLowerCaseASCIIChar d)"
    by simp
  also have "\<dots> \<longleftrightarrow> same_letter c d"
    unfolding of_char_toLowerCaseASCIIChar same_letter_def differ_by_case_def Let_def
    using of_char_eq_iff [of c d, where ?'a = nat]
    by (auto split: if_splits)
  finally show ?thesis .
qed

lemma length_toLowerCaseASCII: "length (toLowerCaseASCII s) = length s"
  by (simp add: toLowerCaseASCII_def)

lemma toLowerCaseASCII_eq_iff: "toLowerCaseASCII a = toLowerCaseASCII b \<longleftrightarrow> list_all2 same_letter a b"
proof -
  have "toLowerCaseASCII a = toLowerCaseASCII b \<longleftrightarrow>
        list_all2 (\<lambda>c d. toLowerCaseASCIIChar c = toLowerCaseASCIIChar d) a b"
    unfolding toLowerCaseASCII_def
  proof (induction a arbitrary: b)
    case Nil
    show ?case by auto
  next
    case (Cons x xs)
    show ?case by (cases b) (simp_all add: Cons.IH)
  qed
  then show ?thesis
    by (simp add: toLowerCaseASCIIChar_eq_iff)
qed




subsection \<open>Text search\<close>



subsection \<open>Severity filter\<close>

text \<open>
  C6. For each of the four severity values of the drop-down, \<open>filterIssues\<close> keeps
  exactly the issues whose \<open>severity\<close> field is that very string, in their order, and
  the value \<open>all\<close> returns the list as it is.
\<close>

theorem filterIssues_exact:
  "(s \<in> {''critical'', ''high'', ''medium'', ''low''} \<longrightarrow>
      filterIssues s issues = filter (\<lambda>i. severity i = Some s) issues) \<and>
   filterIssues ''all'' issues = issues"
  by (auto simp: filterIssues_def)

theorem filterIssues_exact_witness:
  "''critical'' \<in> {''critical'', ''high'', ''medium'', ''low''} \<and>
   filter (\<lambda>i. severity i = Some ''critical'')
     [mk_issue (Some ''a'') None (Some ''critical'') None,
      mk_issue (Some ''b'') None (Some ''Critical'') None,
      mk_issue (Some ''c'') None None None,
      mk_issue (Some ''d'') None (Some ''high'') None]
   = [mk_issue (Some ''a'') None (Some ''critical'') None]"
proof -
  have mem: "''critical'' \<in> {''critical'', ''high'', ''medium'', ''low''}" by simp
  have run: "filterIssues ''critical''
     [mk_issue (Some ''a'') None (Some ''critical'') None,
      mk_issue (Some ''b'') None (Some ''Critical'') None,
      mk_issue (Some ''c'') None None None,
      mk_issue (Some ''d'') None (Some ''high'') None]
   = [mk_issue (Some ''a'') None (Some ''critical'') None]"
    by code_simp
  note spec = filterIssues_exact [of "''critical''", THEN conjunct1, THEN mp, OF mem]
  show ?thesis
    using mem run by (simp only: spec [symmetric] simp_thms)
qed

subsection \<open>Quick stats\<close>

lemma severity_in_iff:
  assumes "\<forall>w\<in>set ws. toLowerCaseASCII w = w"
  shows "severity_in ws i \<longleftrightarrow> severity_among ws i"
proof (cases "severity i")
  case None
  then show ?thesis by (simp add: severity_in_def severity_among_def)
next
  case (Some s)
  have "toLowerCaseASCII s \<in> set ws \<longleftrightarrow> (\<exists>w. w \<in> set ws \<and> toLowerCaseASCII s = toLowerCaseASCII w)"
    using assms by auto
  with Some show ?thesis
    by (simp add: severity_in_def severity_among_def toLowerCaseASCII_eq_iff)
qed

lemma lower_words:
  "\<forall>w\<in>set [''critical'', ''high'', ''error'']. toLowerCaseASCII w = w"
  "\<forall>w\<in>set [''medium'', ''warning'']. toLowerCaseASCII w = w"
  by (simp_all add: toLowerCaseASCII_def toLowerCaseASCIIChar_def)

lemma criticalHighCount_filter:
  "criticalHighCount r =
     length (filter (severity_in [''critical'', ''high'', ''error'']) (allIssues r))"
  by (simp add: criticalHighCount_def categories_def allIssues_def)

lemma mediumCount_filter:
  "mediumCount r = length (filter (severity_in [''medium'', ''warning'']) (allIssues r))"
  by (simp add: mediumCount_def categories_def allIssues_def)

lemma buckets_disjoint:
  "\<not> (severity_in [''critical'', ''high'', ''error''] i \<and> severity_in [''medium'', ''warning''] i)"
  by (auto simp: severity_in_def split: option.splits)

lemma length_filter_three:
  "(\<And>x. \<not> (P x \<and> Q x)) \<Longrightarrow>
   length (filter (\<lambda>x. \<not> P x \<and> \<not> Q x) xs) + length (filter P xs) + length (filter Q xs)
     = length xs"
  by (induction xs) auto

text \<open>
  C5. Over the issues of the four categories, the "Critical/High" number is the number
  of issues whose severity is, letter case ignored, one of critical, high, error; the
  "Medium" number is the number of those whose severity is, letter case ignored, medium
  or warning; every other issue, one without a severity included, is in neither
  number: the two numbers and the number of the remaining issues add up to the number
  of all issues.
\<close>

theorem quick_stats_tally:
  "criticalHighCount r =
     length (filter (severity_among [''critical'', ''high'', ''error'']) (allIssues r)) \<and>
   mediumCount r =
     length (filter (severity_among [''medium'', ''warning'']) (allIssues r)) \<and>
   length (filter (\<lambda>i. \<not> severity_among [''critical'', ''high'', ''error''] i \<and>
                         \<not> severity_among [''medium'', ''warning''] i) (allIssues r))
     + criticalHighCount r + mediumCount r = length (allIssues r)"
proof -
  have a: "severity_in [''critical'', ''high'', ''error'']
             = severity_among [''critical'', ''high'', ''error'']"
    using severity_in_iff [OF lower_words(1)] by blast
  have b: "severity_in [''medium'', ''warning''] = severity_among [''medium'', ''warning'']"
    using severity_in_iff [OF lower_words(2)] by blast
  have c: "\<And>i. \<not> (severity_among [''critical'', ''high'', ''error''] i \<and>
                  severity_among [''medium'', ''warning''] i)"
    using buckets_disjoint unfolding a b .
  show ?thesis
    unfolding criticalHighCount_filter mediumCount_filter a b
    using length_filter_three [OF c] by simp
qed

theorem quick_stats_tally_witness:
  "length (filter (severity_among [''critical'', ''high'', ''error'']) (allIssues mixed_scan)) = 2 \<and>
   length (filter (severity_among [''medium'', ''warning'']) (allIssues mixed_scan)) = 1 \<and>
   length (allIssues mixed_scan) = 5"
proof -
  have run: "criticalHighCount mixed_scan = 2" "mediumCount mixed_scan = 1"
    "length (allIssues mixed_scan) = 5"
    by code_simp+
  show ?thesis
    using quick_stats_tally [of mixed_scan] run by simp
qed

subsection \<open>Grouping of best-practice suggestions\<close>

lemma indexed_from_Nil: "indexed_from k [] = []"
  by (simp add: indexed_from_def)

lemma indexed_from_Cons: "indexed_from k (x # xs) = (x, k) # indexed_from (Suc k) xs"
proof -
  have "[k..<k + length (x # xs)] = k # [Suc k..<Suc k + length xs]"
    by (simp add: upt_conv_Cons del: upt_Suc)
  then show ?thesis
    by (simp add: indexed_from_def del: upt_Suc)
qed

lemma map_fst_indexed_from: "map fst (indexed_from k xs) = xs"
  by (simp add: indexed_from_def)

lemma itemCount_append: "itemCount (g @ h) = itemCount g + itemCount h"
  by (simp add: itemCount_def)

lemma itemCount_update:
  "distinct (map fst g) \<Longrightarrow> map_of g c = Some items \<Longrightarrow>
   itemCount (AList.update c (items @ [x]) g) = Suc (itemCount g)"
proof (induction g)
  case Nil
  then show ?case by simp
next
  case (Cons p g)
  obtain k v where p: "p = (k, v)" by (cases p)
  show ?case
  proof (cases "k = c")
    case True
    with Cons.prems p show ?thesis by (simp add: itemCount_def)
  next
    case False
    with Cons p show ?thesis by (simp add: itemCount_def)
  qed
qed

lemma entries_append_new:
  "map_of g c = None \<Longrightarrow>
   entries (g @ [(c, [x])]) d = entries g d @ (if c = d then [x] else [])"
  by (auto simp: entries_def map_add_def split: option.splits)

lemma entries_update:
  "map_of g c = Some items \<Longrightarrow>
   entries (AList.update c (items @ [x]) g) d = entries g d @ (if c = d then [x] else [])"
  by (auto simp: entries_def update_conv' split: option.splits)

lemma group_step_ok:
  assumes "categoryOf s \<notin> set objectPrototypeKeys" and "distinct (map fst g)"
  shows "\<exists>g'. group_step g s i = Inr g' \<and>
           (\<forall>c. entries g' c = entries g c @ (if categoryOf s = c then [(s, i)] else [])) \<and>
           distinct (map fst g') \<and> itemCount g' = Suc (itemCount g)"
proof (cases "map_of g (categoryOf s)")
  case None
  then have "categoryOf s \<notin> fst ` set g"
    by (simp add: map_of_eq_None_iff)
  with assms None show ?thesis
    by (simp add: group_step_def Let_def entries_append_new itemCount_append)
       (simp add: itemCount_def)
next
  case (Some items)
  with assms show ?thesis
    by (simp add: group_step_def Let_def entries_update itemCount_update distinct_update)
qed

lemma reduce_groups_ok:
  assumes "\<forall>s\<in>set xs. categoryOf s \<notin> set objectPrototypeKeys" and "distinct (map fst g)"
  shows "\<exists>g'. reduce_groups g k xs = Inr g' \<and>
           (\<forall>c. entries g' c =
                  entries g c @ filter (\<lambda>(s, i). categoryOf s = c) (indexed_from k xs)) \<and>
           distinct (map fst g') \<and> itemCount g' = itemCount g + length xs"
  using assms
proof (induction xs arbitrary: g k)
  case Nil
  then show ?case by (simp add: indexed_from_Nil)
next
  case (Cons x xs)
  from Cons.prems obtain g1 where
    step: "group_step g x k = Inr g1" and
    e1: "\<And>c. entries g1 c = entries g c @ (if categoryOf x = c then [(x, k)] else [])" and
    d1: "distinct (map fst g1)" and
    n1: "itemCount g1 = Suc (itemCount g)"
    using group_step_ok [of x g k] by auto
  from Cons.prems have "\<forall>s\<in>set xs. categoryOf s \<notin> set objectPrototypeKeys"
    by simp
  from Cons.IH [OF this d1, of "Suc k"] obtain g2 where
    run: "reduce_groups g1 (Suc k) xs = Inr g2" and
    e2: "\<And>c. entries g2 c =
              entries g1 c @ filter (\<lambda>(s, i). categoryOf s = c) (indexed_from (Suc k) xs)" and
    d2: "distinct (map fst g2)" and
    n2: "itemCount g2 = itemCount g1 + length xs"
    by auto
  have "reduce_groups g k (x # xs) = Inr g2"
    by (simp add: step run)
  moreover have "\<forall>c. entries g2 c =
      entries g c @ filter (\<lambda>(s, i). categoryOf s = c) (indexed_from k (x # xs))"
    by (simp add: e2 e1 indexed_from_Cons)
  moreover have "itemCount g2 = itemCount g + length (x # xs)"
    by (simp add: n1 n2)
  ultimately show ?case
    using d2 by blast
qed

lemma itemCount_displayed_gen:
  "itemCount (concat (map (\<lambda>c. case map_of g c of None \<Rightarrow> [] | Some items \<Rightarrow> [(c, items)]) cs))
     = sum_list (map (\<lambda>c. length (entries g c)) cs)"
  by (induction cs) (auto simp: itemCount_def entries_def split: option.splits)

lemma sum_length_filter_eq:
  "distinct cs \<Longrightarrow>
   sum_list (map (\<lambda>c. length (filter (\<lambda>x. f x = c) xs)) cs)
     = length (filter (\<lambda>x. f x \<in> set cs) xs)"
proof (induction cs)
  case Nil
  then show ?case by simp
next
  case (Cons c cs)
  have "length (filter (\<lambda>x. f x = c) xs) + length (filter (\<lambda>x. f x \<in> set cs) xs)
          = length (filter (\<lambda>x. f x = c \<or> f x \<in> set cs) xs)"
    using Cons.prems by (induction xs) auto
  with Cons show ?case by simp
qed

lemma length_filter_indexed:
  "length (filter (\<lambda>(s, i). P s) (indexed_from k xs)) = length (filter P xs)"
proof -
  have "length (filter (\<lambda>(s, i). P s) (indexed_from k xs))
          = length (filter P (map fst (indexed_from k xs)))"
    by (simp add: filter_map case_prod_unfold comp_def)
  then show ?thesis
    by (simp add: map_fst_indexed_from)
qed

lemma distinct_categoryOrder: "distinct categoryOrder"
  by (simp add: categoryOrder_def)

lemma grouping_summary:
  assumes "\<forall>s\<in>set suggestions. categoryOf s \<notin> set objectPrototypeKeys"
  shows "\<exists>groups. groupedSuggestions suggestions = Inr groups \<and>
           (\<forall>c. entries groups c =
                  filter (\<lambda>(s, i). categoryOf s = c) (indexed_from 0 suggestions)) \<and>
           itemCount groups = length suggestions \<and>
           itemCount (displayedGroups groups) =
             length (filter (\<lambda>s. categoryOf s \<in> set categoryOrder) suggestions)"
proof -
  from reduce_groups_ok [OF assms, of "[]" 0] obtain groups where
    run: "groupedSuggestions suggestions = Inr groups" and
    e: "\<And>c. entries groups c = filter (\<lambda>(s, i). categoryOf s = c) (indexed_from 0 suggestions)" and
    n: "itemCount groups = length suggestions"
    by (auto simp: groupedSuggestions_def entries_def itemCount_def)
  have "itemCount (displayedGroups groups)
          = sum_list (map (\<lambda>c. length (filter (\<lambda>s. categoryOf s = c) suggestions)) categoryOrder)"
    unfolding displayedGroups_def itemCount_displayed_gen
    by (simp add: e length_filter_indexed)
  also have "\<dots> = length (filter (\<lambda>s. categoryOf s \<in> set categoryOrder) suggestions)"
    by (rule sum_length_filter_eq [OF distinct_categoryOrder])
  finally show ?thesis
    using run e n by blast
qed

text \<open>
  C2, as the code has it. When no category is the name of a property inherited from
  \<^verbatim>\<open>Object.prototype\<close>, the grouping returns; each suggestion, with its position, is
  under its own category, and under "general" when its category is missing or empty;
  the items of all groups together are as many as the suggestions; and when every
  category, or "general" for a missing one, is in the display list, the items of the
  displayed groups are as many as the suggestions.
\<close>

theorem groupedSuggestions_by_own_category:
  assumes "\<forall>s\<in>set suggestions. categoryOf s \<notin> set objectPrototypeKeys"
  shows "\<exists>groups. groupedSuggestions suggestions = Inr groups \<and>
           (\<forall>c. entries groups c =
                  filter (\<lambda>(s, i). categoryOf s = c) (indexed_from 0 suggestions)) \<and>
           itemCount groups = length suggestions \<and>
           ((\<forall>s\<in>set suggestions. categoryOf s \<in> set categoryOrder) \<longrightarrow>
              itemCount (displayedGroups groups) = length suggestions)"
proof -
  from grouping_summary [OF assms] obtain groups where
    g: "groupedSuggestions suggestions = Inr groups"
       "\<forall>c. entries groups c =
              filter (\<lambda>(s, i). categoryOf s = c) (indexed_from 0 suggestions)"
       "itemCount groups = length suggestions"
       "itemCount (displayedGroups groups) =
          length (filter (\<lambda>s. categoryOf s \<in> set categoryOrder) suggestions)"
    by blast
  have "(\<forall>s\<in>set suggestions. categoryOf s \<in> set categoryOrder) \<longrightarrow>
          itemCount (displayedGroups groups) = length suggestions"
    by (simp add: g(4))
  with g(1,2,3) show ?thesis
    by blast
qed

theorem groupedSuggestions_by_own_category_witness:
  "\<exists>groups. groupedSuggestions listed_suggestions = Inr groups \<and>
      entries groups ''general'' = [(mk_suggestion ''Add a health check'' None, 1)] \<and>
      itemCount groups = 3 \<and> itemCount (displayedGroups groups) = 3"
proof -
  have ok: "\<forall>s\<in>set listed_suggestions. categoryOf s \<notin> set objectPrototypeKeys"
    by code_simp
  have listed: "\<forall>s\<in>set listed_suggestions. categoryOf s \<in> set categoryOrder"
    by code_simp
  have n: "length listed_suggestions = 3"
    by code_simp
  have general: "filter (\<lambda>(s, i). categoryOf s = ''general'') (indexed_from 0 listed_suggestions)
                   = [(mk_suggestion ''Add a health check'' None, 1)]"
    by code_simp
  from groupedSuggestions_by_own_category [OF ok] obtain groups where
    g: "groupedSuggestions listed_suggestions = Inr groups"
       "\<forall>c. entries groups c =
              filter (\<lambda>(s, i). categoryOf s = c) (indexed_from 0 listed_suggestions)"
       "itemCount groups = length listed_suggestions"
       "(\<forall>s\<in>set listed_suggestions. categoryOf s \<in> set categoryOrder) \<longrightarrow>
          itemCount (displayedGroups groups) = length listed_suggestions"
    by blast
  from g(4) listed have "itemCount (displayedGroups groups) = 3"
    by (simp add: n)
  moreover from g(2) general have "entries groups ''general'' = [(mk_suggestion ''Add a health check'' None, 1)]"
    by simp
  ultimately show ?thesis
    using g(1,3) n by auto
qed

text \<open>
  C2, as stated, fails: a suggestion of a category outside the display list is stored
  under that category, nothing is stored under "general", and no displayed group
  holds it, so the displayed groups hold 0 items for 1 suggestion.
\<close>

theorem groupedSuggestions_general_counterexample:
  "groupedSuggestions [mk_suggestion ''Enable layer caching'' (Some ''performance'')]
     = Inr [(''performance'',
             [(mk_suggestion ''Enable layer caching'' (Some ''performance''), 0)])] \<and>
   ''performance'' \<notin> set categoryOrder \<and>
   entries [(''performance'',
             [(mk_suggestion ''Enable layer caching'' (Some ''performance''), 0)])] ''general'' = [] \<and>
   itemCount (displayedGroups
     [(''performance'',
       [(mk_suggestion ''Enable layer caching'' (Some ''performance''), 0)])]) = 0 \<and>
   length [mk_suggestion ''Enable layer caching'' (Some ''performance'')] = 1"
  by code_simp

subsection \<open>Error messages of the API client\<close>

text \<open>
  C9, as the code has it. The message of the error a failed call throws is the
  \<open>detail\<close> of the response body when that is a string and not empty; when the body
  has no \<open>detail\<close> or a falsy one, it is the text of the transport error when that is
  not empty, and otherwise "Request failed". Both \<open>scanConfiguration\<close> and
  \<open>explainIssue\<close> throw that error.
\<close>

theorem api_error_message:
  "(response_detail e = Some (JString d) \<and> d \<noteq> [] \<longrightarrow> errorMessage e = d) \<and>
   ((response_detail e = None \<or> (\<exists>v. response_detail e = Some v \<and> \<not> js_truthy v)) \<and>
      error_text e \<noteq> [] \<longrightarrow> errorMessage e = error_text e) \<and>
   ((response_detail e = None \<or> (\<exists>v. response_detail e = Some v \<and> \<not> js_truthy v)) \<and>
      error_text e = [] \<longrightarrow> errorMessage e = ''Request failed'') \<and>
   scanConfiguration formData (Inl e) = Inl (Error (errorMessage e)) \<and>
   snd (explainIssue issueDescription configurationContext mode_arg (Inl e))
     = Inl (Error (errorMessage e))"
  by (auto simp: errorMessage_def or_value_def scanConfiguration_def
        explainIssue_def api_post_def split: option.splits)

theorem api_error_message_witness:
  "response_detail detail_error = Some (JString ''Unsupported file type'') \<and>
   errorMessage detail_error = ''Unsupported file type'' \<and>
   response_detail empty_detail_error = Some (JString []) \<and>
   errorMessage empty_detail_error = ''Request failed with status code 400'' \<and>
   response_detail no_response_error = None \<and>
   errorMessage no_response_error = ''Request failed''"
proof -
  have d: "response_detail detail_error = Some (JString ''Unsupported file type'') \<and>
           ''Unsupported file type'' \<noteq> []"
    by code_simp
  have f: "response_detail empty_detail_error = Some (JString [])"
    "error_text empty_detail_error = ''Request failed with status code 400''"
    by code_simp+
  have n: "response_detail no_response_error = None" "error_text no_response_error = []"
    by code_simp+
  have falsy: "(response_detail empty_detail_error = None \<or>
                (\<exists>v. response_detail empty_detail_error = Some v \<and> \<not> js_truthy v)) \<and>
               error_text empty_detail_error \<noteq> []"
    by (simp add: f)
  have missing: "(response_detail no_response_error = None \<or>
                  (\<exists>v. response_detail no_response_error = Some v \<and> \<not> js_truthy v)) \<and>
                 error_text no_response_error = []"
    by (simp add: n)
  note a1 = api_error_message [of detail_error "''Unsupported file type''", THEN conjunct1,
              THEN mp, OF d]
  note a2 = api_error_message [of empty_detail_error, THEN conjunct2, THEN conjunct1,
              THEN mp, OF falsy]
  note a3 = api_error_message [of no_response_error, THEN conjunct2, THEN conjunct2,
              THEN conjunct1, THEN mp, OF missing]
  show ?thesis
    using d a1 a2 a3 f n by simp
qed

text \<open>
  C9, as stated, fails: a response body whose \<open>detail\<close> is present and is the empty
  string gives the text of the transport error, not the detail; and one whose
  \<open>detail\<close> is a list of objects gives \<^verbatim>\<open>[object Object]\<close>.
\<close>

theorem api_error_message_counterexample:
  "response_detail empty_detail_error = Some (JString []) \<and>
   errorMessage empty_detail_error = ''Request failed with status code 400'' \<and>
   response_detail list_detail_error
     = Some (JArray [JObject [(''loc'', JArray [JString ''body'', JString ''mode'']),
                              (''msg'', JString ''field required'')]]) \<and>
   errorMessage list_detail_error = ''[object Object]''"
  by code_simp

subsection \<open>The mode of explain requests\<close>

text \<open>
  C10. Whatever issue is selected, whatever is typed and whatever the scan returned,
  a request sent to \<^verbatim>\<open>/explain\<close> by the explanation panel or by the assistant has the
  mode "devops": both call \<open>explainIssue\<close> without its third argument, and neither
  reads the mode chosen in the Upload view. A mode, were one passed, would be sent.
\<close>

theorem explain_mode_always_devops:
  "(snd (handleExplainIssue selectedIssue outcome v) = Some request \<longrightarrow> mode request = ''devops'') \<and>
   (handleSendMessage input isLoading sd outcome = Some request' \<longrightarrow>
      mode request' = ''devops'') \<and>
   mode (fst (explainIssue issueDescription configurationContext None outcome)) = ''devops'' \<and>
   mode (fst (explainIssue issueDescription configurationContext (Some m) outcome)) = m"
  by (auto simp: handleExplainIssue_def handleSendMessage_def explainIssue_def
        split: option.splits sum.splits list.splits if_splits prod.splits)

theorem explain_mode_always_devops_witness:
  "handleSendMessage ''What is the worst issue?'' False (Some high_scan)
       (Inr \<lparr>explanation = Some ''Use a USER instruction.''\<rparr>)
     = Some \<lparr>issue_description = Some ''Container runs as root'',
             configuration_context =
               \<lparr>ctx_file = Some ''Dockerfile'', ctx_line = None, ctx_service = None,
                ctx_type = None\<rparr>,
             mode = ''devops''\<rparr> \<and>
   mode \<lparr>issue_description = Some ''Container runs as root'',
         configuration_context =
           \<lparr>ctx_file = Some ''Dockerfile'', ctx_line = None, ctx_service = None,
            ctx_type = None\<rparr>,
         mode = ''devops''\<rparr> = ''devops''"
proof -
  have run: "handleSendMessage ''What is the worst issue?'' False (Some high_scan)
       (Inr \<lparr>explanation = Some ''Use a USER instruction.''\<rparr>)
     = Some \<lparr>issue_description = Some ''Container runs as root'',
             configuration_context =
               \<lparr>ctx_file = Some ''Dockerfile'', ctx_line = None, ctx_service = None,
                ctx_type = None\<rparr>,
             mode = ''devops''\<rparr>"
    by code_simp
  from explain_mode_always_devops [THEN conjunct2, THEN conjunct1, THEN mp, OF run] run
  show ?thesis by blast
qed

subsection \<open>One scan\<close>



subsection \<open>A scan without files\<close>

text \<open>
  C4. A scan started with no file held sets the error "Please upload at least one
  configuration file", changes nothing else, and sends no request, whatever the
  network would have answered.
\<close>

theorem handleScan_no_files:
  assumes "held_keys (files st) = []"
  shows "handleScan outcome st =
           (st\<lparr>error := ''Please upload at least one configuration file''\<rparr>, [])"
  using assms by (simp add: handleScan_def handleScan_begin_def)

theorem handleScan_no_files_witness:
  "snd (handleScan (Inr high_scan) upload_empty) = [] \<and>
   error (fst (handleScan (Inr high_scan) upload_empty))
     = ''Please upload at least one configuration file'' \<and>
   isScanning (fst (handleScan (Inr high_scan) upload_empty)) = False \<and>
   scanData (fst (handleScan (Inr high_scan) upload_empty)) = Some mixed_scan"
proof -
  have none: "held_keys (files upload_empty) = []"
    by (simp add: held_keys_def upload_empty_def)
  show ?thesis
    by (simp add: handleScan_no_files [OF none]) (simp add: upload_empty_def)
qed

subsection \<open>Two clicks\<close>

text \<open>
  C1 does not hold of the code. With a Dockerfile read, the first click on "Start
  Analysis" sets \<open>isScanning\<close> and sends a request; the button is not disabled, and the
  second click sends a second request while the first is still in flight.
\<close>

theorem second_click_sends_second_request:
  "isScanning (run [FileRead dockerfile a_dockerfile, ClickStartAnalysis] upload_opened) \<and>
   \<not> button_disabled (run [FileRead dockerfile a_dockerfile, ClickStartAnalysis] upload_opened) \<and>
   length (in_flight (run [FileRead dockerfile a_dockerfile, ClickStartAnalysis] upload_opened)) = 1 \<and>
   length (in_flight (run [FileRead dockerfile a_dockerfile, ClickStartAnalysis,
                           ClickStartAnalysis] upload_opened)) = 2"
  by code_simp

subsection \<open>Export of the report\<close>

text \<open>A quoted string is read back as it was.\<close>

lemma hex_value_hex_digit: "k < 16 \<Longrightarrow> hex_value (hex_digit k) = Some k"
  by (auto simp: hex_value_def hex_digit_def Let_def)

lemma hex4_control:
  "n < 32 \<Longrightarrow> hex4 (CHR ''0'') (CHR ''0'') (hex_digit (n div 16)) (hex_digit (n mod 16)) = Some n"
proof -
  assume n: "n < 32"
  have z: "hex_value (CHR ''0'') = Some 0"
    by (simp add: hex_value_def)
  have a: "hex_value (hex_digit (n div 16)) = Some (n div 16)"
    using n by (intro hex_value_hex_digit) simp
  have b: "hex_value (hex_digit (n mod 16)) = Some (n mod 16)"
    by (intro hex_value_hex_digit) simp
  show ?thesis
    by (simp add: hex4_def z a b)
qed

lemma parse_chars_quote_char:
  "parse_chars (quote_char c @ r) = prepend [c] (parse_chars r)"
proof -
  consider (short) "c \<in> {CHR 0x08, CHR 0x09, CHR 0x0A, CHR 0x0C, CHR 0x0D, dquote, backslash}"
    | (ctrl) "c \<notin> {CHR 0x08, CHR 0x09, CHR 0x0A, CHR 0x0C, CHR 0x0D, dquote, backslash}"
        "(of_char c :: nat) < 32"
    | (plain) "c \<notin> {CHR 0x08, CHR 0x09, CHR 0x0A, CHR 0x0C, CHR 0x0D, dquote, backslash}"
        "\<not> (of_char c :: nat) < 32"
    by blast
  then show ?thesis
  proof cases
    case short
    then show ?thesis
      by (auto simp: quote_char_def unescape_def dquote_def backslash_def)
  next
    case ctrl
    have "utf8_encode (of_char c) = [c]"
      using ctrl(2) by (simp add: utf8_encode_def)
    with ctrl show ?thesis
      by (simp add: quote_char_def hex4_control dquote_def backslash_def)
  next
    case plain
    then show ?thesis
      by (simp add: quote_char_def dquote_def backslash_def)
  qed
qed

lemma parse_chars_quoted:
  "parse_chars (concat (map quote_char s) @ dquote # r) = Some (s, r)"
  by (induction s) (simp_all add: parse_chars_quote_char prepend_def)

text \<open>Tokens: a numeral is read to its end, and white space is skipped up to a value.\<close>

lemma number_char_not_ws: "number_char c \<Longrightarrow> \<not> is_ws c"
  by (auto simp: number_char_def is_ws_def is_digit_def)

lemma number_char_not_open:
  "number_char c \<Longrightarrow>
   c \<noteq> CHR ''n'' \<and> c \<noteq> CHR ''t'' \<and> c \<noteq> CHR ''f'' \<and> c \<noteq> dquote \<and> c \<noteq> CHR ''['' \<and> c \<noteq> CHR ''{''
   \<and> c \<noteq> CHR '']'' \<and> c \<noteq> CHR ''}''"
  by (auto simp: number_char_def is_digit_def dquote_def)

lemma json_numeral_chars: "json_numeral t \<Longrightarrow> list_all number_char t"
  by (simp add: json_numeral_def Let_def)

lemma json_numeral_nonempty: "json_numeral t \<Longrightarrow> t \<noteq> []"
  by (auto simp: json_numeral_def Let_def)

lemma json_numeral_hd: "json_numeral t \<Longrightarrow> \<exists>c cs. t = c # cs \<and> number_char c"
  using json_numeral_chars [of t] json_numeral_nonempty [of t] by (cases t) auto

lemma takeWhile_token:
  "list_all P t \<Longrightarrow> (case r of [] \<Rightarrow> True | c # _ \<Rightarrow> \<not> P c) \<Longrightarrow>
   takeWhile P (t @ r) = t \<and> dropWhile P (t @ r) = r"
  by (induction t) (auto simp: list_all_iff split: list.splits)

lemma parse_number_token:
  "json_numeral t \<Longrightarrow> safe_rest r \<Longrightarrow> parse_number (t @ r) = Some (JNumber t, r)"
  using takeWhile_token [of number_char t r]
  by (simp add: parse_number_def safe_rest_def json_numeral_chars)

lemma skip_ws_nl_indent: "\<not> is_ws c \<Longrightarrow> skip_ws (nl_indent i @ c # r) = c # r"
  by (simp add: skip_ws_def nl_indent_def is_ws_def dropWhile_append3)

lemma skip_ws_keep: "\<not> is_ws c \<Longrightarrow> skip_ws (c # r) = c # r"
  by (simp add: skip_ws_def)

lemma skip_ws_space: "\<not> is_ws c \<Longrightarrow> skip_ws (CHR '' '' # c # r) = c # r"
  by (simp add: skip_ws_def is_ws_def)

lemma serialize_head:
  "wf_json v \<Longrightarrow>
   \<exists>c cs. SerializeJSON i v = c # cs \<and> \<not> is_ws c \<and> c \<noteq> CHR '']'' \<and> c \<noteq> CHR ''}''
           \<and> c \<noteq> CHR '','' \<and> c \<noteq> CHR '':''"
proof (cases v)
  case (JNumber t)
  assume "wf_json v"
  with JNumber obtain c cs where t: "t = c # cs" "number_char c"
    using json_numeral_hd [of t] by auto
  then have "c \<noteq> CHR '','' \<and> c \<noteq> CHR '':''"
    by (auto simp: number_char_def is_digit_def)
  with t JNumber show ?thesis
    using number_char_not_ws [of c] number_char_not_open [of c] by simp
qed (auto simp: is_ws_def QuoteJSONString_def dquote_def)

text \<open>Members with distinct keys build the object they were printed from.\<close>

lemma update_fresh: "k \<notin> fst ` set al \<Longrightarrow> AList.update k v al = al @ [(k, v)]"
  by (induction al) auto

lemma foldl_update_distinct:
  "distinct (map fst (acc @ ms)) \<Longrightarrow>
   foldl (\<lambda>acc m. AList.update (fst m) (snd m) acc) acc ms = acc @ ms"
proof (induction ms arbitrary: acc)
  case Nil
  show ?case by simp
next
  case (Cons m ms)
  have fresh: "fst m \<notin> fst ` set acc"
    using Cons.prems by auto
  have "distinct (map fst ((acc @ [m]) @ ms))"
    using Cons.prems by simp
  from Cons.IH [OF this] show ?case
    by (simp add: update_fresh [OF fresh])
qed

lemma object_of_distinct: "distinct (map fst ms) \<Longrightarrow> object_of ms = ms"
  using foldl_update_distinct [of "[]" ms] by (simp add: object_of_def)

text \<open>One step of the parser on each shape of printed value.\<close>

lemma parse_value_literals:
  "parse_value (Suc n) (''null'' @ r) = Some (JNull, r)"
  "parse_value (Suc n) (''true'' @ r) = Some (JBool True, r)"
  "parse_value (Suc n) (''false'' @ r) = Some (JBool False, r)"
  by (simp_all add: parse_literal_def)

lemma parse_value_string:
  "parse_value (Suc n) (QuoteJSONString s @ r) = Some (JString s, r)"
  using parse_chars_quoted [of s r]
  by (simp add: QuoteJSONString_def) (simp add: dquote_def)

lemma parse_value_number:
  assumes "json_numeral t" and "safe_rest r"
  shows "parse_value (Suc n) (t @ r) = Some (JNumber t, r)"
proof -
  from assms(1) obtain c cs where t: "t = c # cs" and c: "number_char c"
    using json_numeral_hd by blast
  have "parse_value (Suc n) (t @ r) = parse_number (t @ r)"
    using number_char_not_open [OF c] by (simp add: t)
  then show ?thesis
    by (simp add: parse_number_token [OF assms])
qed

lemma parse_value_empty:
  "parse_value (Suc n) (''[]'' @ r) = Some (JArray [], r)"
  "parse_value (Suc n) (''{}'' @ r) = Some (JObject [], r)"
  by (simp_all add: skip_ws_def is_ws_def dquote_def)

lemma parse_value_array:
  assumes "\<not> is_ws d" and "d \<noteq> CHR '']''"
  shows "parse_value (Suc n) (''['' @ nl_indent k @ d # body) =
           (case parse_elements n (d # body) of
              None \<Rightarrow> None
            | Some (xs, r') \<Rightarrow> Some (JArray xs, r'))"
  using assms by (simp add: skip_ws_nl_indent dquote_def)

lemma parse_value_object:
  assumes "\<not> is_ws d" and "d \<noteq> CHR ''}''"
  shows "parse_value (Suc n) (''{'' @ nl_indent k @ d # body) =
           (case parse_members n (d # body) of
              None \<Rightarrow> None
            | Some (ms, r') \<Rightarrow> Some (JObject (object_of ms), r'))"
  using assms by (simp add: skip_ws_nl_indent dquote_def)

lemma elements_head:
  "wf_elems xs \<Longrightarrow> xs \<noteq> [] \<Longrightarrow>
   \<exists>c cs. SerializeElements i xs = c # cs \<and> \<not> is_ws c \<and> c \<noteq> CHR '']''"
proof (cases xs)
  case Nil
  assume "xs \<noteq> []"
  with Nil show ?thesis by simp
next
  case (Cons x ys)
  assume "wf_elems xs"
  with Cons have "wf_json x" by simp
  from serialize_head [OF this, of i] Cons show ?thesis
    by auto
qed

lemma members_head:
  "ms \<noteq> [] \<Longrightarrow> \<exists>cs. SerializeMembers i ms = dquote # cs"
  by (cases ms) (auto simp: QuoteJSONString_def)

lemma dquote_plain: "\<not> is_ws dquote" "dquote \<noteq> CHR ''}''"
  by (simp_all add: dquote_def is_ws_def)

lemma safe_rest_simps:
  "safe_rest (nl_indent j @ r)" "safe_rest (CHR '','' # r)" "safe_rest []"
  by (simp_all add: safe_rest_def nl_indent_def number_char_def is_digit_def)

lemma closing_after_indent:
  "skip_ws (nl_indent j @ CHR '']'' # r) = CHR '']'' # r"
  "skip_ws (nl_indent j @ CHR ''}'' # r) = CHR ''}'' # r"
  by (simp_all add: skip_ws_nl_indent is_ws_def)

lemma comma_kept: "skip_ws (CHR '','' # r) = CHR '','' # r"
  by (simp add: skip_ws_def is_ws_def)

lemma colon_kept: "skip_ws (CHR '':'' # r) = CHR '':'' # r"
  by (simp add: skip_ws_def is_ws_def)

lemma parse_members_step:
  assumes val: "parse_value n (v_text @ tail) = Some (v, tail)"
    and hd: "v_text = c # cs" "\<not> is_ws c"
  shows "parse_members (Suc n) (QuoteJSONString k @ '': '' @ v_text @ tail) =
           (case skip_ws tail of
              [] \<Rightarrow> None
            | d # r3 \<Rightarrow>
                if d = CHR '','' then
                  (case parse_members n (skip_ws r3) of
                     None \<Rightarrow> None
                   | Some (ms, r4) \<Rightarrow> Some ((k, v) # ms, r4))
                else if d = CHR ''}'' then Some ([(k, v)], r3)
                else None)"
proof -
  have shape: "QuoteJSONString k @ '': '' @ v_text @ tail
                = dquote # (concat (map quote_char k) @ dquote # (CHR '':'' # CHR '' '' # c # cs @ tail))"
    by (simp add: QuoteJSONString_def hd(1))
  have sk: "skip_ws (CHR '' '' # c # cs @ tail) = c # cs @ tail"
    using skip_ws_space [OF hd(2)] by simp
  show ?thesis
    unfolding shape
    using val
    by (simp add: parse_chars_quoted colon_kept sk hd(1) del: parse_chars.simps)
qed

lemma parse_elements_step:
  assumes val: "parse_value n (v_text @ tail) = Some (v, tail)"
  shows "parse_elements (Suc n) (v_text @ tail) =
           (case skip_ws tail of
              [] \<Rightarrow> None
            | d # r1 \<Rightarrow>
                if d = CHR '','' then
                  (case parse_elements n (skip_ws r1) of
                     None \<Rightarrow> None
                   | Some (vs, r2) \<Rightarrow> Some (v # vs, r2))
                else if d = CHR '']'' then Some ([v], r1)
                else None)"
  using val by simp

text \<open>
  The printed text of a well-formed value, followed by anything that does not
  continue a number, parses to that value and leaves what followed, given enough
  calls; likewise for the elements of an array and the members of an object up to the
  closing bracket.
\<close>

declare parse_value.simps(2) [simp del] parse_elements.simps(2) [simp del]
  parse_members.simps(2) [simp del]

lemma roundtrip_values:
  "wf_json v \<Longrightarrow> cost v \<le> n \<Longrightarrow> safe_rest r \<Longrightarrow>
     parse_value n (SerializeJSON i v @ r) = Some (v, r)"
  "wf_elems xs \<Longrightarrow> xs \<noteq> [] \<Longrightarrow> cost_elems xs \<le> n \<Longrightarrow>
     parse_elements n (SerializeElements i xs @ nl_indent j @ CHR '']'' # r) = Some (xs, r)"
  "wf_members ms \<Longrightarrow> ms \<noteq> [] \<Longrightarrow> cost_members ms \<le> n \<Longrightarrow>
     parse_members n (SerializeMembers i ms @ nl_indent j @ CHR ''}'' # r) = Some (ms, r)"
proof (induction v and xs and ms arbitrary: n i r and n i j r and n i j r
    rule: wf_json_wf_elems_wf_members.induct)
  case 1
  then obtain n' where "n = Suc n'" by (cases n) auto
  then show ?case using parse_value_literals(1) by simp
next
  case (2 b)
  then obtain n' where "n = Suc n'" by (cases n) auto
  then show ?case using parse_value_literals(2,3) by simp
next
  case (3 t)
  then obtain n' where "n = Suc n'" by (cases n) auto
  with 3 show ?case by (simp add: parse_value_number)
next
  case (4 s)
  then obtain n' where "n = Suc n'" by (cases n) auto
  then show ?case by (simp add: parse_value_string)
next
  case (5 xs)
  from 5(3) obtain n' where n: "n = Suc n'" and c: "cost_elems xs \<le> n'"
    by (cases n) auto
  show ?case
  proof (cases "xs = []")
    case True
    then show ?thesis using parse_value_empty(1) [of n' r] by (simp add: n)
  next
    case False
    from 5(2) have wf: "wf_elems xs" by simp
    from elements_head [OF wf False, of "i + 2"] obtain d body where
      hd: "SerializeElements (i + 2) xs = d # body" "\<not> is_ws d" "d \<noteq> CHR '']''"
      by blast
    let ?tail = "nl_indent i @ CHR '']'' # r"
    have e: "SerializeJSON i (JArray xs) @ r = ''['' @ nl_indent (i + 2) @ d # (body @ ?tail)"
      using False hd(1) by simp
    have pv: "parse_value n (SerializeJSON i (JArray xs) @ r)
        = (case parse_elements n' (d # (body @ ?tail)) of
             None \<Rightarrow> None | Some (ys, r') \<Rightarrow> Some (JArray ys, r'))"
      unfolding n e by (rule parse_value_array [OF hd(2,3)])
    have el: "parse_elements n' (d # (body @ ?tail)) = Some (xs, r)"
      using "5.IH" [OF wf False c, of "i + 2" i r] hd(1) by simp
    show ?thesis
      unfolding pv el by simp
  qed
next
  case (6 ms)
  from 6(3) obtain n' where n: "n = Suc n'" and c: "cost_members ms \<le> n'"
    by (cases n) auto
  show ?case
  proof (cases "ms = []")
    case True
    then show ?thesis using parse_value_empty(2) [of n' r] by (simp add: n)
  next
    case False
    from 6(2) have wf: "wf_members ms" and dist: "distinct (map fst ms)" by simp_all
    from members_head [OF False, of "i + 2"] obtain body where
      hd: "SerializeMembers (i + 2) ms = dquote # body"
      by blast
    let ?tail = "nl_indent i @ CHR ''}'' # r"
    have e: "SerializeJSON i (JObject ms) @ r = ''{'' @ nl_indent (i + 2) @ dquote # (body @ ?tail)"
      using False hd by simp
    have pv: "parse_value n (SerializeJSON i (JObject ms) @ r)
        = (case parse_members n' (dquote # (body @ ?tail)) of
             None \<Rightarrow> None | Some (ks, r') \<Rightarrow> Some (JObject (object_of ks), r'))"
      unfolding n e by (rule parse_value_object [OF dquote_plain])
    have el: "parse_members n' (dquote # (body @ ?tail)) = Some (ms, r)"
      using "6.IH" [OF wf False c, of "i + 2" i r] hd by simp
    show ?thesis
      unfolding pv el by (simp add: object_of_distinct [OF dist])
  qed
next
  case 7
  then show ?case by simp
next
  case (8 x xs)
  from 8(5) obtain n' where n: "n = Suc n'" and cx: "cost x \<le> n'" and cxs: "cost_elems xs \<le> n'"
    by (cases n) auto
  from 8(3) have wfx: "wf_json x" and wfxs: "wf_elems xs" by simp_all
  show ?case
  proof (cases "xs = []")
    case True
    have val: "parse_value n' (SerializeJSON i x @ nl_indent j @ CHR '']'' # r)
                 = Some (x, nl_indent j @ CHR '']'' # r)"
      by (rule "8.IH"(1) [OF wfx cx safe_rest_simps(1)])
    show ?thesis
      using parse_elements_step [OF val] True
      by (simp add: n closing_after_indent)
  next
    case False
    from elements_head [OF wfxs False, of i] obtain d body where
      hd: "SerializeElements i xs = d # body" "\<not> is_ws d"
      by blast
    let ?tail = "CHR '','' # nl_indent i @ SerializeElements i xs @ nl_indent j @ CHR '']'' # r"
    have val: "parse_value n' (SerializeJSON i x @ ?tail) = Some (x, ?tail)"
      by (rule "8.IH"(1) [OF wfx cx safe_rest_simps(2)])
    have sk: "skip_ws (nl_indent i @ SerializeElements i xs @ nl_indent j @ CHR '']'' # r)
                = SerializeElements i xs @ nl_indent j @ CHR '']'' # r"
      using skip_ws_nl_indent [OF hd(2)] by (simp add: hd(1))
    have rest: "parse_elements n' (SerializeElements i xs @ nl_indent j @ CHR '']'' # r) = Some (xs, r)"
      by (rule "8.IH"(2) [OF wfxs False cxs])
    have st: "parse_elements (Suc n') (SerializeJSON i x @ ?tail) = Some (x # xs, r)"
      unfolding parse_elements_step [OF val] by (simp add: comma_kept sk rest)
    show ?thesis
      unfolding n using st False by simp
  qed
next
  case 9
  then show ?case by simp
next
  case (10 m ms)
  from 10(5) obtain n' where n: "n = Suc n'" and cx: "cost (snd m) \<le> n'"
    and cms: "cost_members ms \<le> n'"
    by (cases n) auto
  from 10(3) have wfx: "wf_json (snd m)" and wfms: "wf_members ms" by simp_all
  from serialize_head [OF wfx, of i] obtain c cs where
    vhd: "SerializeJSON i (snd m) = c # cs" "\<not> is_ws c"
    by blast
  show ?case
  proof (cases "ms = []")
    case True
    have val: "parse_value n' (SerializeJSON i (snd m) @ nl_indent j @ CHR ''}'' # r)
                 = Some (snd m, nl_indent j @ CHR ''}'' # r)"
      by (rule "10.IH"(1) [OF wfx cx safe_rest_simps(1)])
    have "SerializeMembers i (m # ms) @ nl_indent j @ CHR ''}'' # r
            = QuoteJSONString (fst m) @ '': '' @ SerializeJSON i (snd m) @ nl_indent j @ CHR ''}'' # r"
      using True by simp
    then show ?thesis
      unfolding n
      using parse_members_step [OF val vhd, of "fst m"] True
      by (simp add: closing_after_indent)
  next
    case False
    from members_head [OF False, of i] obtain body where
      hd: "SerializeMembers i ms = dquote # body"
      by blast
    let ?tail = "CHR '','' # nl_indent i @ SerializeMembers i ms @ nl_indent j @ CHR ''}'' # r"
    have val: "parse_value n' (SerializeJSON i (snd m) @ ?tail) = Some (snd m, ?tail)"
      by (rule "10.IH"(1) [OF wfx cx safe_rest_simps(2)])
    have sk: "skip_ws (nl_indent i @ SerializeMembers i ms @ nl_indent j @ CHR ''}'' # r)
                = SerializeMembers i ms @ nl_indent j @ CHR ''}'' # r"
      using skip_ws_nl_indent [OF dquote_plain(1)] by (simp add: hd)
    have rest: "parse_members n' (SerializeMembers i ms @ nl_indent j @ CHR ''}'' # r) = Some (ms, r)"
      by (rule "10.IH"(2) [OF wfms False cms])
    have st: "parse_members (Suc n')
                (QuoteJSONString (fst m) @ '': '' @ SerializeJSON i (snd m) @ ?tail)
              = Some (m # ms, r)"
      unfolding parse_members_step [OF val vhd, of "fst m"] by (simp add: comma_kept sk rest)
    show ?thesis
      unfolding n using st False by simp
  qed
qed

text \<open>The length of the printed text is enough calls.\<close>

lemma cost_le_length:
  "wf_json v \<Longrightarrow> cost v \<le> length (SerializeJSON i v)"
  "wf_elems xs \<Longrightarrow> cost_elems xs \<le> Suc (length (SerializeElements i xs))"
  "wf_members ms \<Longrightarrow> cost_members ms \<le> Suc (length (SerializeMembers i ms))"
proof (induction v and xs and ms arbitrary: i and i and i
    rule: wf_json_wf_elems_wf_members.induct)
  case (3 t)
  then show ?case
    using json_numeral_nonempty [of t] by (cases t) auto
next
  case (5 xs)
  from 5 have "cost_elems xs \<le> Suc (length (SerializeElements (i + 2) xs))"
    by simp
  then show ?case
    by (simp add: nl_indent_def)
next
  case (6 ms)
  from 6 have "cost_members ms \<le> Suc (length (SerializeMembers (i + 2) ms))"
    by simp
  then show ?case
    by (simp add: nl_indent_def)
next
  case (8 x xs)
  from 8 have "cost x \<le> length (SerializeJSON i x)"
    and "cost_elems xs \<le> Suc (length (SerializeElements i xs))"
    by simp_all
  then show ?case
    by (cases xs) (simp_all add: nl_indent_def)
next
  case (10 m ms)
  from 10 have "cost (snd m) \<le> length (SerializeJSON i (snd m))"
    and "cost_members ms \<le> Suc (length (SerializeMembers i ms))"
    by simp_all
  then show ?case
    by (cases ms) (simp_all add: nl_indent_def QuoteJSONString_def)
qed (simp_all add: QuoteJSONString_def)

lemma JSON_roundtrip:
  assumes "wf_json v"
  shows "JSON_parse (JSON_stringify v) = Some v"
proof -
  from serialize_head [OF assms, of 0] obtain c cs where
    hd: "SerializeJSON 0 v = c # cs" "\<not> is_ws c"
    by blast
  have sk: "skip_ws (SerializeJSON 0 v) = SerializeJSON 0 v"
    using skip_ws_keep [OF hd(2)] by (simp add: hd(1))
  have "parse_value (length (SerializeJSON 0 v)) (SerializeJSON 0 v @ []) = Some (v, [])"
    by (rule roundtrip_values(1) [OF assms cost_le_length(1) [OF assms] safe_rest_simps(3)])
  moreover have "skip_ws [] = []"
    by (simp add: skip_ws_def)
  ultimately show ?thesis
    by (simp add: JSON_parse_def JSON_stringify_def sk)
qed

text \<open>The shape of the time stamp and of its date part.\<close>

lemma is_digit_digit_char: "is_digit (digit_char n)"
  by (simp add: is_digit_def digit_char_def)

lemma digit_char_not_T: "digit_char n \<noteq> CHR ''T''"
  using is_digit_digit_char [of n] by (auto simp: is_digit_def)

lemma pad_2: "pad 2 n = [digit_char (n div 10), digit_char n]"
  by (simp add: numeral_2_eq_2)

lemma pad_3: "pad 3 n = [digit_char (n div 10 div 10), digit_char (n div 10), digit_char n]"
proof -
  have "pad (Suc 2) n = pad 2 (n div 10) @ [digit_char n]"
    by (rule pad.simps(2))
  then show ?thesis
    by (simp add: pad_2)
qed

lemma pad_4:
  "pad 4 n = [digit_char (n div 10 div 10 div 10), digit_char (n div 10 div 10),
              digit_char (n div 10), digit_char n]"
proof -
  have "pad (Suc 3) n = pad 3 (n div 10) @ [digit_char n]"
    by (rule pad.simps(2))
  then show ?thesis
    by (simp add: pad_3)
qed

lemmas pad_unfold = pad_2 pad_3 pad_4

lemma toISOString_shape:
  "four_digit_year t \<Longrightarrow> matches_template ''####-##-##T##:##:##.###Z'' (toISOString t)"
  by (simp add: four_digit_year_def toISOString_def matches_template_def pad_unfold
        is_digit_digit_char)

lemma date_part:
  "four_digit_year t \<Longrightarrow>
   split_first (CHR ''T'') (toISOString t)
     = pad 4 (nat (utc_year t)) @ ''-'' @ pad 2 (utc_month t) @ ''-'' @ pad 2 (utc_date t)"
  by (simp add: four_digit_year_def toISOString_def split_first_def pad_unfold digit_char_not_T)

text \<open>
  C8. For every held scan result and clock readings within the years 0 to 9999, the
  text of the downloaded blob parses, as JSON, to an object with the members
  \<open>timestamp\<close>, the ISO-8601 text of the first reading, and \<open>scan_data\<close>, equal to the
  held scan result; the blob's type is \<^verbatim>\<open>application/json\<close>; and the file name is
  \<^verbatim>\<open>zeroguard-report-\<close>, the date of the second reading as YYYY-MM-DD, and \<^verbatim>\<open>.json\<close>.
\<close>

theorem exportReport_roundtrip:
  assumes "wf_json doc"
    and "valid_utc now1" and "valid_utc now2"
    and "four_digit_year now1" and "four_digit_year now2"
  shows "JSON_parse (concat (blob_parts (exportReport now1 now2 doc)))
           = Some (JObject [(''timestamp'', JString (toISOString now1)),
                            (''scan_data'', doc)]) \<and>
         matches_template ''####-##-##T##:##:##.###Z'' (toISOString now1) \<and>
         blob_type (exportReport now1 now2 doc) = ''application/json'' \<and>
         download_name (exportReport now1 now2 doc)
           = ''zeroguard-report-'' @ pad 4 (nat (utc_year now2)) @ ''-'' @
             pad 2 (utc_month now2) @ ''-'' @ pad 2 (utc_date now2) @ ''.json'' \<and>
         matches_template ''zeroguard-report-####-##-##.json''
           (download_name (exportReport now1 now2 doc))"
proof -
  let ?report = "JObject [(''timestamp'', JString (toISOString now1)), (''scan_data'', doc)]"
  have "wf_json ?report"
    using assms(1) by simp
  then have parse: "JSON_parse (JSON_stringify ?report) = Some ?report"
    by (rule JSON_roundtrip)
  have name: "download_name (exportReport now1 now2 doc)
           = ''zeroguard-report-'' @ pad 4 (nat (utc_year now2)) @ ''-'' @
             pad 2 (utc_month now2) @ ''-'' @ pad 2 (utc_date now2) @ ''.json''"
    by (simp add: exportReport_def Let_def date_part [OF assms(5)])
  have "matches_template ''zeroguard-report-####-##-##.json''
          (download_name (exportReport now1 now2 doc))"
    unfolding name
    by (simp add: matches_template_def pad_unfold is_digit_digit_char)
  with parse name toISOString_shape [OF assms(4)] show ?thesis
    by (simp add: exportReport_def Let_def)
qed

theorem exportReport_roundtrip_witness:
  "JSON_parse (concat (blob_parts (exportReport report_time report_time held_document)))
     = Some (JObject [(''timestamp'', JString ''2026-11-03T06:41:07.123Z''),
                      (''scan_data'', held_document)]) \<and>
   download_name (exportReport report_time report_time held_document)
     = ''zeroguard-report-2026-11-03.json''"
proof -
  have wf: "wf_json held_document"
    by code_simp
  have v: "valid_utc report_time" and y: "four_digit_year report_time"
    by code_simp+
  have iso: "toISOString report_time = ''2026-11-03T06:41:07.123Z''"
    by code_simp
  have nm: "''zeroguard-report-'' @ pad 4 (nat (utc_year report_time)) @ ''-'' @
             pad 2 (utc_month report_time) @ ''-'' @ pad 2 (utc_date report_time) @ ''.json''
            = ''zeroguard-report-2026-11-03.json''"
    by code_simp
  show ?thesis
    using exportReport_roundtrip [OF wf v v y y] unfolding iso nm by blast
qed

end
